theory Spec2Isabelle
  imports Complex_Main "HOL-Library.AList"
begin

section \<open>Union-Find (unionFind.js)\<close>

text \<open>
  The class keeps two JavaScript \<open>Map\<close>s, \<open>parent\<close> and \<open>rank\<close>. A JavaScript
  \<open>Map\<close> iterates in insertion order and \<open>set\<close> on a present key keeps the key's
  position, which is what \<open>AList.update\<close> does on an association list; \<open>get\<close> is
  \<open>map_of\<close> and \<open>has\<close> is \<open>map_of \<dots> \<noteq> None\<close>.

  A rank read is a JavaScript number or \<open>undefined\<close>; \<open>undefined\<close> compares false
  both ways and \<open>undefined + 1\<close> is \<open>NaN\<close>.
\<close>

datatype rk = Rk nat | RkNaN

fun js_lt :: "rk option \<Rightarrow> rk option \<Rightarrow> bool" where
  "js_lt (Some (Rk a)) (Some (Rk b)) = (a < b)"
| "js_lt _ _ = False"

fun js_succ :: "rk option \<Rightarrow> rk" where
  "js_succ (Some (Rk a)) = Rk (a + 1)"
| "js_succ _ = RkNaN"

record UnionFind =
  parent :: "(string \<times> string) list"
  rank :: "(string \<times> rk) list"

definition UnionFind_new :: UnionFind where
  "UnionFind_new = \<lparr>parent = [], rank = []\<rparr>"

definition makeSet :: "UnionFind \<Rightarrow> string \<Rightarrow> UnionFind" where
  "makeSet uf x =
     (if map_of (parent uf) x = None
      then uf\<lparr>parent := AList.update x x (parent uf), rank := AList.update x (Rk 0) (rank uf)\<rparr>
      else uf)"

text \<open>
  \<open>find\<close> recurses along the parent pointers and does not return on a cyclic table, so
  it is a partial function: \<open>None\<close> is "does not return". The result is the root
  together with the table after path compression. After \<open>makeSet\<close> the key \<open>x\<close> is
  present, so the \<open>None\<close> branch of the lookup is never taken (\<open>makeSet_has\<close> below).
\<close>

partial_function (option) find_uf :: "UnionFind \<Rightarrow> string \<Rightarrow> (string \<times> UnionFind) option" where
  "find_uf uf x =
     (case map_of (parent (makeSet uf x)) x of
        None \<Rightarrow> None
      | Some p \<Rightarrow>
          if p \<noteq> x
          then Option.bind (find_uf (makeSet uf x) p)
                 (\<lambda>(r, uf'). Some (r, uf'\<lparr>parent := AList.update x r (parent uf')\<rparr>))
          else Some (x, makeSet uf x))"

declare find_uf.simps [code]

definition union_uf :: "UnionFind \<Rightarrow> string \<Rightarrow> string \<Rightarrow> UnionFind option" where
  "union_uf uf x y =
     (case find_uf uf x of
        None \<Rightarrow> None
      | Some (rootX, uf1) \<Rightarrow>
          (case find_uf uf1 y of
             None \<Rightarrow> None
           | Some (rootY, uf2) \<Rightarrow>
               if rootX = rootY then Some uf2
               else
                 let rankX = map_of (rank uf2) rootX;
                     rankY = map_of (rank uf2) rootY
                 in if js_lt rankX rankY
                    then Some (uf2\<lparr>parent := AList.update rootX rootY (parent uf2)\<rparr>)
                    else if js_lt rankY rankX
                    then Some (uf2\<lparr>parent := AList.update rootY rootX (parent uf2)\<rparr>)
                    else Some (uf2\<lparr>parent := AList.update rootY rootX (parent uf2),
                                    rank := AList.update rootX (js_succ rankX) (rank uf2)\<rparr>)))"

definition connected_uf :: "UnionFind \<Rightarrow> string \<Rightarrow> string \<Rightarrow> (bool \<times> UnionFind) option" where
  "connected_uf uf x y =
     (case find_uf uf x of
        None \<Rightarrow> None
      | Some (rx, uf1) \<Rightarrow>
          (case find_uf uf1 y of
             None \<Rightarrow> None
           | Some (ry, uf2) \<Rightarrow> Some (rx = ry, uf2)))"

text \<open>
  \<open>getRoots\<close> walks \<open>parent.keys()\<close>, calls \<open>find\<close> on each and collects the results
  in a \<open>Set\<close> (insertion ordered, no duplicates).
\<close>

fun getRoots_loop :: "string list \<Rightarrow> UnionFind \<Rightarrow> string list \<Rightarrow> (string list \<times> UnionFind) option" where
  "getRoots_loop [] uf roots = Some (roots, uf)"
| "getRoots_loop (element # es) uf roots =
     (case find_uf uf element of
        None \<Rightarrow> None
      | Some (r, uf') \<Rightarrow> getRoots_loop es uf' (if r \<in> set roots then roots else roots @ [r]))"

definition getRoots :: "UnionFind \<Rightarrow> (string list \<times> UnionFind) option" where
  "getRoots uf = getRoots_loop (map fst (parent uf)) uf []"

text \<open>A sequence of \<open>union\<close> calls, left to right.\<close>

fun unions :: "UnionFind \<Rightarrow> (string \<times> string) list \<Rightarrow> UnionFind option" where
  "unions uf [] = Some uf"
| "unions uf ((a, b) # es) =
     (case union_uf uf a b of None \<Rightarrow> None | Some uf' \<Rightarrow> unions uf' es)"

section \<open>Circuit simulator (circuitSimulator.js)\<close>

subsection \<open>Input data\<close>

text \<open>
  The fields the simulator reads. Positions are not read and are left out. \<open>role\<close> is
  optional on a node and \<open>resistance\<close> is optional on a component. JavaScript numbers are
  modelled as reals.
\<close>

record Node =
  node_id :: string
  componentId :: string
  role :: "string option"

record Component =
  comp_id :: string
  ctype :: string
  resistance :: "real option"

record Connection =
  fromNodeId :: string
  toNodeId :: string

definition BATTERY_VOLTAGE :: real where "BATTERY_VOLTAGE = 9"
definition BATTERY_INTERNAL_RESISTANCE :: real where "BATTERY_INTERNAL_RESISTANCE = 1 / 10"
definition BULB_RESISTANCE :: real where "BULB_RESISTANCE = 500"
definition CURRENT_THRESHOLD :: real where "CURRENT_THRESHOLD = 1 / 1000"
definition NORMAL_CURRENT :: real where "NORMAL_CURRENT = 18 / 1000"
definition BURNOUT_CURRENT :: real where "BURNOUT_CURRENT = 5 / 100"
definition SHORT_CIRCUIT_CURRENT :: real where "SHORT_CIRCUIT_CURRENT = 1 / 10"

subsection \<open>Results\<close>

text \<open>
  The initial bulb state has only \<open>isOn\<close>, \<open>current\<close>, \<open>voltage\<close> and \<open>power\<close>; the
  computed one has all eight fields, so the other four are optional. The objects
  \<open>bulbStates\<close> and \<open>nodeVoltages\<close> are kept as their entries: a property write is
  \<open>AList.update\<close>, a property read is \<open>map_of\<close>.
\<close>

record BulbState =
  isOn :: bool
  isBurnedOut :: "bool option"
  brightness :: "real option"
  current :: real
  voltage :: real
  voltageNode1 :: "real option"
  voltageNode2 :: "real option"
  bulb_power :: real

record SimulationResult =
  hasClosedLoop :: bool
  bulbsOnCount :: nat
  bulbStates :: "(string \<times> BulbState) list"
  nodeVoltages :: "(string \<times> real) list"
  totalCurrent :: real
  batteryIndices :: "nat list"

definition emptyResult :: SimulationResult where
  "emptyResult = \<lparr>hasClosedLoop = False, bulbsOnCount = 0, bulbStates = [],
     nodeVoltages = [], totalCurrent = 0, batteryIndices = []\<rparr>"

definition offState :: BulbState where
  "offState = \<lparr>isOn = False, isBurnedOut = None, brightness = None, current = 0, voltage = 0,
     voltageNode1 = None, voltageNode2 = None, bulb_power = 0\<rparr>"

definition initBulbStates :: "Component list \<Rightarrow> SimulationResult \<Rightarrow> SimulationResult" where
  "initBulbStates components result =
     foldl (\<lambda>r bulb. r\<lparr>bulbStates := AList.update (comp_id bulb) offState (bulbStates r)\<rparr>) result
       (filter (\<lambda>c. ctype c = ''bulb'') components)"

subsection \<open>The cktsim interface\<close>

text \<open>
  \<open>cktsim.js\<close> is an external collaborator: the simulator creates a \<open>Circuit\<close>, asks it
  for node handles, adds voltage sources and resistors and calls \<open>dc()\<close>. It is a
  parameter here. \<open>'c\<close> is the state of the \<open>Circuit\<close> object; every call may throw
  (\<open>Inl\<close>); \<open>dc()\<close> returns \<open>undefined\<close> (\<open>None\<close>) or an object from names to
  numbers, given by its entries. The argument \<open>T_VOLTAGE = 0\<close> of \<open>node\<close> is a constant and is left out, and
  the values of sources and resistors are passed as the numbers whose \<open>String(\<dots>)\<close>
  rendering the source passes. A handle read from \<open>netToIndex\<close> may be \<open>undefined\<close>.
\<close>

datatype exn = Exception

record 'c cktsim =
  ckt_new :: "exn + 'c"
  ckt_gnd_node :: "'c \<Rightarrow> exn + int"
  ckt_node :: "'c \<Rightarrow> string \<Rightarrow> exn + int \<times> 'c"
  ckt_v :: "'c \<Rightarrow> int option \<Rightarrow> int option \<Rightarrow> real \<Rightarrow> string \<Rightarrow> exn + 'c"
  ckt_r :: "'c \<Rightarrow> int option \<Rightarrow> int option \<Rightarrow> real \<Rightarrow> string \<Rightarrow> exn + 'c"
  ckt_dc :: "'c \<Rightarrow> exn + (string \<times> real) list option"

subsection \<open>Nets and net names\<close>

fun nodeToNet_loop ::
  "Node list \<Rightarrow> UnionFind \<Rightarrow> (string \<times> string) list \<Rightarrow> ((string \<times> string) list \<times> UnionFind) option" where
  "nodeToNet_loop [] uf nodeToNet = Some (nodeToNet, uf)"
| "nodeToNet_loop (node # ns) uf nodeToNet =
     (case find_uf uf (node_id node) of
        None \<Rightarrow> None
      | Some (r, uf') \<Rightarrow> nodeToNet_loop ns uf' (AList.update (node_id node) r nodeToNet))"

definition buildElectricalNets ::
  "Node list \<Rightarrow> Connection list \<Rightarrow> (UnionFind \<times> (string \<times> string) list) option" where
  "buildElectricalNets nodes connections =
     (case unions (foldl (\<lambda>uf node. makeSet uf (node_id node)) UnionFind_new nodes)
             (map (\<lambda>conn. (fromNodeId conn, toNodeId conn)) connections) of
        None \<Rightarrow> None
      | Some uf \<Rightarrow>
          (case nodeToNet_loop nodes uf [] of
             None \<Rightarrow> None
           | Some (nodeToNet, uf') \<Rightarrow> Some (uf', nodeToNet)))"

text \<open>The decimal rendering of the net counter in the template literal \<open>net${netCounter++}\<close>.\<close>

definition digit_char :: "nat \<Rightarrow> char" where
  "digit_char d = char_of (48 + d)"

function string_of_nat :: "nat \<Rightarrow> string" where
  "string_of_nat n =
     (if n < 10 then [digit_char n] else string_of_nat (n div 10) @ [digit_char (n mod 10)])"
  by pat_completeness auto
termination
  by (relation "measure id") auto

fun netNames_loop ::
  "string list \<Rightarrow> string option \<Rightarrow> nat \<Rightarrow> (string \<times> string) list \<Rightarrow> (string \<times> string) list" where
  "netNames_loop [] groundNet netCounter netNames = netNames"
| "netNames_loop (rootId # rs) groundNet netCounter netNames =
     (if Some rootId = groundNet
      then netNames_loop rs groundNet netCounter (AList.update rootId ''gnd'' netNames)
      else netNames_loop rs groundNet (netCounter + 1)
             (AList.update rootId (''net'' @ string_of_nat netCounter) netNames))"

definition assignNetNames ::
  "UnionFind \<Rightarrow> Node list \<Rightarrow> ((string \<times> string) list \<times> string option) option" where
  "assignNetNames uf nodes =
     (case (case List.find (\<lambda>n. role n = Some ''battery_minus'') nodes of
              None \<Rightarrow> Some (None, uf)
            | Some batteryMinusNode \<Rightarrow>
                (case find_uf uf (node_id batteryMinusNode) of
                   None \<Rightarrow> None
                 | Some (g, uf') \<Rightarrow> Some (Some g, uf'))) of
        None \<Rightarrow> None
      | Some (groundNet, uf1) \<Rightarrow>
          (case getRoots uf1 of
             None \<Rightarrow> None
           | Some (roots, uf2) \<Rightarrow> Some (netNames_loop roots groundNet 1 [], groundNet)))"

text \<open>
  \<open>netNames.get(netRoot) || netRoot\<close>: the root itself when the name is missing or
  empty; \<open>undefined\<close> (\<open>None\<close>) when the node id is not in \<open>nodeToNet\<close>.
\<close>

definition getNetName ::
  "string \<Rightarrow> (string \<times> string) list \<Rightarrow> (string \<times> string) list \<Rightarrow> string option" where
  "getNetName nodeId nodeToNet netNames =
     (case map_of nodeToNet nodeId of
        None \<Rightarrow> None
      | Some netRoot \<Rightarrow>
          (case map_of netNames netRoot of
             None \<Rightarrow> Some netRoot
           | Some name \<Rightarrow> if name = [] then Some netRoot else Some name))"

definition isShorted :: "Node list \<Rightarrow> (string \<times> string) list \<Rightarrow> Component \<Rightarrow> bool" where
  "isShorted nodes nodeToNet battery =
     (let batteryNodes = filter (\<lambda>n. componentId n = comp_id battery) nodes
      in case (List.find (\<lambda>n. role n = Some ''battery_plus'') batteryNodes,
               List.find (\<lambda>n. role n = Some ''battery_minus'') batteryNodes) of
           (Some plusNode, Some minusNode) \<Rightarrow>
             map_of nodeToNet (node_id plusNode) = map_of nodeToNet (node_id minusNode)
         | _ \<Rightarrow> False)"

definition getShortedBatteryIds ::
  "Component list \<Rightarrow> Node list \<Rightarrow> (string \<times> string) list \<Rightarrow> string set" where
  "getShortedBatteryIds components nodes nodeToNet =
     set (map comp_id (filter (isShorted nodes nodeToNet)
                         (filter (\<lambda>c. ctype c = ''battery'') components)))"

definition getAllBatteryIndices :: "Component list \<Rightarrow> nat list" where
  "getAllBatteryIndices components =
     map (\<lambda>idx. idx + 1) [0..<length (filter (\<lambda>c. ctype c = ''battery'') components)]"

subsection \<open>Steps 1 to 3: translation\<close>

fun createNodes ::
  "'c cktsim \<Rightarrow> (string \<times> string) list \<Rightarrow> 'c \<Rightarrow> (string \<times> int) list \<Rightarrow> exn + 'c \<times> (string \<times> int) list" where
  "createNodes K [] ckt netToIndex = Inr (ckt, netToIndex)"
| "createNodes K ((rootId, netName) # es) ckt netToIndex =
     (if netName \<noteq> ''gnd''
      then (case ckt_node K ckt netName of
              Inl e \<Rightarrow> Inl e
            | Inr (idx, ckt') \<Rightarrow> createNodes K es ckt' (AList.update netName idx netToIndex))
      else createNodes K es ckt netToIndex)"

definition getNodeIndex ::
  "(string \<times> string) list \<Rightarrow> (string \<times> string) list \<Rightarrow> (string \<times> int) list \<Rightarrow> string \<Rightarrow> int option" where
  "getNodeIndex nodeToNet netNames netToIndex nodeId =
     (case getNetName nodeId nodeToNet netNames of
        None \<Rightarrow> None
      | Some netName \<Rightarrow> map_of netToIndex netName)"

text \<open>
  The body of the battery loop for a battery that is not skipped: one internal node, the
  9 V source from the internal node to the minus net, the internal resistance from the plus
  net to the internal node. A battery without both terminals adds nothing.
\<close>

definition addBattery ::
  "'c cktsim \<Rightarrow> Node list \<Rightarrow> (string \<Rightarrow> int option) \<Rightarrow> Component \<Rightarrow> 'c \<Rightarrow> exn + 'c" where
  "addBattery K nodes nodeIndex battery ckt =
     (let batteryNodes = filter (\<lambda>n. componentId n = comp_id battery) nodes
      in case (List.find (\<lambda>n. role n = Some ''battery_plus'') batteryNodes,
               List.find (\<lambda>n. role n = Some ''battery_minus'') batteryNodes) of
           (Some plusNode, Some minusNode) \<Rightarrow>
             (case ckt_node K ckt (''_'' @ comp_id battery @ ''_internal'') of
                Inl e \<Rightarrow> Inl e
              | Inr (internalIdx, ckt1) \<Rightarrow>
                  (case ckt_v K ckt1 (Some internalIdx) (nodeIndex (node_id minusNode))
                          BATTERY_VOLTAGE (comp_id battery) of
                     Inl e \<Rightarrow> Inl e
                   | Inr ckt2 \<Rightarrow>
                       ckt_r K ckt2 (nodeIndex (node_id plusNode)) (Some internalIdx)
                         BATTERY_INTERNAL_RESISTANCE (comp_id battery @ ''_Rint'')))
         | _ \<Rightarrow> Inr ckt)"

fun addBatteries ::
  "'c cktsim \<Rightarrow> Node list \<Rightarrow> (string \<Rightarrow> int option) \<Rightarrow> string set \<Rightarrow> Component list \<Rightarrow> nat \<Rightarrow>
     'c \<Rightarrow> nat list \<Rightarrow> exn + 'c \<times> nat list" where
  "addBatteries K nodes nodeIndex shortedBatteryIds [] index ckt indices =
     Inr (ckt, indices)"
| "addBatteries K nodes nodeIndex shortedBatteryIds (battery # bs) index ckt indices =
     (if comp_id battery \<in> shortedBatteryIds
      then addBatteries K nodes nodeIndex shortedBatteryIds bs (index + 1) ckt
             (indices @ [index + 1])
      else (case addBattery K nodes nodeIndex battery ckt of
              Inl e \<Rightarrow> Inl e
            | Inr ckt' \<Rightarrow>
                addBatteries K nodes nodeIndex shortedBatteryIds bs (index + 1) ckt' indices))"

fun addBulbs ::
  "'c cktsim \<Rightarrow> Node list \<Rightarrow> (string \<Rightarrow> int option) \<Rightarrow> Component list \<Rightarrow> 'c \<Rightarrow> exn + 'c" where
  "addBulbs K nodes nodeIndex [] ckt = Inr ckt"
| "addBulbs K nodes nodeIndex (bulb # bs) ckt =
     (let bulbNodes = filter (\<lambda>n. componentId n = comp_id bulb) nodes
      in if length bulbNodes = 2
         then (case ckt_r K ckt (nodeIndex (node_id (bulbNodes ! 0)))
                      (nodeIndex (node_id (bulbNodes ! 1))) BULB_RESISTANCE (comp_id bulb) of
                 Inl e \<Rightarrow> Inl e
               | Inr ckt' \<Rightarrow> addBulbs K nodes nodeIndex bs ckt')
         else addBulbs K nodes nodeIndex bs ckt)"

text \<open>\<open>pot.resistance || 500\<close>: an absent resistance and the number 0 are falsy.\<close>

definition potResistance :: "Component \<Rightarrow> real" where
  "potResistance pot =
     (case resistance pot of None \<Rightarrow> 500 | Some x \<Rightarrow> if x = 0 then 500 else x)"

fun addPots ::
  "'c cktsim \<Rightarrow> Node list \<Rightarrow> (string \<Rightarrow> int option) \<Rightarrow> Component list \<Rightarrow> 'c \<Rightarrow> exn + 'c" where
  "addPots K nodes nodeIndex [] ckt = Inr ckt"
| "addPots K nodes nodeIndex (pot # ps) ckt =
     (let potNodes = filter (\<lambda>n. componentId n = comp_id pot) nodes
      in if length potNodes = 2
         then (case ckt_r K ckt (nodeIndex (node_id (potNodes ! 0)))
                      (nodeIndex (node_id (potNodes ! 1))) (potResistance pot) (comp_id pot) of
                 Inl e \<Rightarrow> Inl e
               | Inr ckt' \<Rightarrow> addPots K nodes nodeIndex ps ckt')
         else addPots K nodes nodeIndex ps ckt)"

text \<open>
  Step 3, from \<open>new cktsim.Circuit()\<close> to the last potentiometer: the circuit handed
  to the solver, the \<open>netToIndex\<close> table and the indices of the batteries skipped as
  shorted.
\<close>

definition buildCircuit ::
  "'c cktsim \<Rightarrow> Node list \<Rightarrow> (string \<times> string) list \<Rightarrow> (string \<times> string) list \<Rightarrow> Component list \<Rightarrow>
     exn + 'c \<times> (string \<times> int) list \<times> nat list" where
  "buildCircuit K nodes nodeToNet netNames components =
     (case ckt_new K of
        Inl e \<Rightarrow> Inl e
      | Inr ckt0 \<Rightarrow>
     (case ckt_gnd_node K ckt0 of
        Inl e \<Rightarrow> Inl e
      | Inr gnd \<Rightarrow>
     (case createNodes K netNames ckt0 [(''gnd'', gnd)] of
        Inl e \<Rightarrow> Inl e
      | Inr (ckt1, netToIndex) \<Rightarrow>
     (case addBatteries K nodes (getNodeIndex nodeToNet netNames netToIndex)
             (getShortedBatteryIds components nodes nodeToNet)
             (filter (\<lambda>c. ctype c = ''battery'') components) 0 ckt1 [] of
        Inl e \<Rightarrow> Inl e
      | Inr (ckt2, indices) \<Rightarrow>
     (case addBulbs K nodes (getNodeIndex nodeToNet netNames netToIndex)
             (filter (\<lambda>c. ctype c = ''bulb'') components) ckt2 of
        Inl e \<Rightarrow> Inl e
      | Inr ckt3 \<Rightarrow>
     (case addPots K nodes (getNodeIndex nodeToNet netNames netToIndex)
             (filter (\<lambda>c. ctype c = ''potentiometer'') components) ckt3 of
        Inl e \<Rightarrow> Inl e
      | Inr ckt4 \<Rightarrow> Inr (ckt4, netToIndex, indices)))))))"

text \<open>
  Everything \<open>simulateCircuit\<close> does before the \<open>try\<close> block. It either returns a result
  at once (\<open>Done\<close>: empty input, or no ground reference, where \<open>!groundNet\<close> also holds
  for the empty string) or has built the circuit (\<open>Built\<close>). An exception of a cktsim
  call is not caught here. \<open>nodes\<close>, \<open>components\<close> and \<open>connections\<close> that are
  \<open>undefined\<close> behave as empty lists.
\<close>

record 'c Translation =
  t_ckt :: 'c
  t_result :: SimulationResult
  t_nodeToNet :: "(string \<times> string) list"
  t_netNames :: "(string \<times> string) list"
  t_netToIndex :: "(string \<times> int) list"

datatype 'c translated = Done SimulationResult | Built "'c Translation"

definition translateCircuit ::
  "'c cktsim \<Rightarrow> Node list \<Rightarrow> Connection list \<Rightarrow> Component list \<Rightarrow> (exn + 'c translated) option" where
  "translateCircuit K nodes connections components =
     (if nodes = [] \<or> components = [] then Some (Inr (Done emptyResult))
      else
        (case buildElectricalNets nodes connections of
           None \<Rightarrow> None
         | Some (uf, nodeToNet) \<Rightarrow>
        (case assignNetNames uf nodes of
           None \<Rightarrow> None
         | Some (netNames, groundNet) \<Rightarrow>
             if groundNet = None \<or> groundNet = Some []
             then Some (Inr (Done (initBulbStates components emptyResult)))
             else
               (case buildCircuit K nodes nodeToNet netNames components of
                  Inl e \<Rightarrow> Some (Inl e)
                | Inr (ckt, netToIndex, indices) \<Rightarrow>
                    Some (Inr (Built \<lparr>t_ckt = ckt,
                      t_result = (initBulbStates components emptyResult)\<lparr>batteryIndices := indices\<rparr>,
                      t_nodeToNet = nodeToNet, t_netNames = netNames,
                      t_netToIndex = netToIndex\<rparr>))))))"

subsection \<open>Steps 4 and 5: solving and reading the result\<close>

text \<open>A property read \<open>dcResult[net]\<close> with \<open>net\<close> undefined reads the key \<open>undefined\<close>.\<close>

definition js_key :: "string option \<Rightarrow> string" where
  "js_key k = (case k of None \<Rightarrow> ''undefined'' | Some s \<Rightarrow> s)"

definition netVoltage :: "(string \<times> real) list \<Rightarrow> string option \<Rightarrow> real" where
  "netVoltage dcResult net =
     (if net = Some ''gnd'' then 0
      else (case map_of dcResult (js_key net) of None \<Rightarrow> 0 | Some v \<Rightarrow> v))"

definition bulbState :: "(string \<times> real) list \<Rightarrow> string option \<Rightarrow> string option \<Rightarrow> BulbState" where
  "bulbState dcResult net1 net2 =
     (let v1 = netVoltage dcResult net1;
          v2 = netVoltage dcResult net2;
          voltageDrop = \<bar>v1 - v2\<bar>;
          cur = voltageDrop / BULB_RESISTANCE;
          pw = voltageDrop * cur;
          burnedOut = (cur > BURNOUT_CURRENT);
          on = (\<not> burnedOut \<and> cur > CURRENT_THRESHOLD);
          bright =
            (if on
             then max 0 (min ((cur - CURRENT_THRESHOLD) / (NORMAL_CURRENT - CURRENT_THRESHOLD)) 2)
             else 0)
      in \<lparr>isOn = on, isBurnedOut = Some burnedOut, brightness = Some bright,
          current = cur, voltage = voltageDrop, voltageNode1 = Some v1,
          voltageNode2 = Some v2, bulb_power = pw\<rparr>)"

fun bulbs_loop ::
  "Node list \<Rightarrow> (string \<times> string) list \<Rightarrow> (string \<times> string) list \<Rightarrow> (string \<times> real) list \<Rightarrow>
     Component list \<Rightarrow> SimulationResult \<Rightarrow> SimulationResult" where
  "bulbs_loop nodes nodeToNet netNames dcResult [] result = result"
| "bulbs_loop nodes nodeToNet netNames dcResult (bulb # bs) result =
     (let bulbNodes = filter (\<lambda>n. componentId n = comp_id bulb) nodes
      in if length bulbNodes = 2
         then
           (let st = bulbState dcResult
                       (getNetName (node_id (bulbNodes ! 0)) nodeToNet netNames)
                       (getNetName (node_id (bulbNodes ! 1)) nodeToNet netNames);
                r1 = result\<lparr>bulbStates := AList.update (comp_id bulb) st (bulbStates result)\<rparr>;
                r2 = (if isOn st
                      then r1\<lparr>bulbsOnCount := bulbsOnCount r1 + 1, hasClosedLoop := True\<rparr>
                      else r1)
            in bulbs_loop nodes nodeToNet netNames dcResult bs r2)
         else bulbs_loop nodes nodeToNet netNames dcResult bs result)"

definition batteryCurrent :: "(string \<times> real) list \<Rightarrow> Component list \<Rightarrow> real \<Rightarrow> real" where
  "batteryCurrent dcResult batteries total0 =
     foldl (\<lambda>t battery.
              case map_of dcResult (''I('' @ comp_id battery @ '')'') of
                None \<Rightarrow> t
              | Some i \<Rightarrow> \<bar>i\<bar>) total0 batteries"

definition extractResults ::
  "Node list \<Rightarrow> (string \<times> string) list \<Rightarrow> (string \<times> string) list \<Rightarrow> Component list \<Rightarrow>
     (string \<times> real) list \<Rightarrow> SimulationResult \<Rightarrow> SimulationResult" where
  "extractResults nodes nodeToNet netNames components dcResult result =
     (let batteries = filter (\<lambda>c. ctype c = ''battery'') components;
          bulbs = filter (\<lambda>c. ctype c = ''bulb'') components;
          r1 = result\<lparr>nodeVoltages :=
                 foldl (\<lambda>nv (key, v). if take 2 key \<noteq> ''I('' then AList.update key v nv else nv)
                   (nodeVoltages result) dcResult\<rparr>;
          r2 = r1\<lparr>totalCurrent := batteryCurrent dcResult batteries (totalCurrent r1)\<rparr>;
          r3 = bulbs_loop nodes nodeToNet netNames dcResult bulbs r2;
          r4 = (if \<not> hasClosedLoop r3 \<and> totalCurrent r3 > CURRENT_THRESHOLD
                then r3\<lparr>hasClosedLoop := True\<rparr> else r3)
      in if totalCurrent r4 > SHORT_CIRCUIT_CURRENT \<and> bulbsOnCount r4 = 0 \<and> length batteries > 0
         then r4\<lparr>batteryIndices := getAllBatteryIndices components\<rparr>
         else r4)"

text \<open>
  The \<open>try\<close> block: an exception of \<open>dc()\<close> is caught and, like the result
  \<open>undefined\<close>, flags all batteries.
\<close>

definition analyseCircuit ::
  "'c cktsim \<Rightarrow> Node list \<Rightarrow> Component list \<Rightarrow> 'c Translation \<Rightarrow> SimulationResult" where
  "analyseCircuit K nodes components t =
     (case ckt_dc K (t_ckt t) of
        Inl e \<Rightarrow> (t_result t)\<lparr>batteryIndices := getAllBatteryIndices components\<rparr>
      | Inr None \<Rightarrow> (t_result t)\<lparr>batteryIndices := getAllBatteryIndices components\<rparr>
      | Inr (Some dcResult) \<Rightarrow>
          extractResults nodes (t_nodeToNet t) (t_netNames t) components dcResult (t_result t))"

definition simulateCircuit ::
  "'c cktsim \<Rightarrow> Node list \<Rightarrow> Connection list \<Rightarrow> Component list \<Rightarrow> (exn + SimulationResult) option" where
  "simulateCircuit K nodes connections components =
     (case translateCircuit K nodes connections components of
        None \<Rightarrow> None
      | Some (Inl e) \<Rightarrow> Some (Inl e)
      | Some (Inr (Done result)) \<Rightarrow> Some (Inr result)
      | Some (Inr (Built t)) \<Rightarrow> Some (Inr (analyseCircuit K nodes components t)))"

subsection \<open>A recording implementation of the interface\<close>

text \<open>
  For concrete runs: a \<open>Circuit\<close> that keeps the calls it receives, in order. The handle
  of a node is the ordinal of its \<open>node\<close> call, ground is \<open>-1\<close>, and \<open>dc()\<close> is
  answered by the given solver.
\<close>

datatype device =
  VSource "int option" "int option" real string
| Resistor "int option" "int option" real string

record Netlist =
  nl_nodes :: "string list"
  nl_devices :: "device list"

definition recorder :: "(Netlist \<Rightarrow> exn + (string \<times> real) list option) \<Rightarrow> Netlist cktsim" where
  "recorder solver =
     \<lparr>ckt_new = Inr \<lparr>nl_nodes = [], nl_devices = []\<rparr>,
      ckt_gnd_node = (\<lambda>c. Inr (- 1)),
      ckt_node = (\<lambda>c name. Inr (int (length (nl_nodes c)), c\<lparr>nl_nodes := nl_nodes c @ [name]\<rparr>)),
      ckt_v = (\<lambda>c n1 n2 val name. Inr (c\<lparr>nl_devices := nl_devices c @ [VSource n1 n2 val name]\<rparr>)),
      ckt_r = (\<lambda>c n1 n2 val name. Inr (c\<lparr>nl_devices := nl_devices c @ [Resistor n1 n2 val name]\<rparr>)),
      ckt_dc = solver\<rparr>"


section \<open>Roots of a parent table\<close>

text \<open>
  \<open>root_of m x r\<close>: following the parent pointers of the table \<open>m\<close> from \<open>x\<close>
  ends at the self-parented key \<open>r\<close>.
\<close>

inductive root_of :: "(string \<rightharpoonup> string) \<Rightarrow> string \<Rightarrow> string \<Rightarrow> bool" for m where
  root_self: "m x = Some x \<Longrightarrow> root_of m x x"
| root_step: "m x = Some p \<Longrightarrow> p \<noteq> x \<Longrightarrow> root_of m p r \<Longrightarrow> root_of m x r"

definition parent_map :: "UnionFind \<Rightarrow> (string \<rightharpoonup> string)" where
  "parent_map uf = map_of (parent uf)"

definition uf_inv :: "UnionFind \<Rightarrow> bool" where
  "uf_inv uf = (\<forall>x. parent_map uf x \<noteq> None \<longrightarrow> (\<exists>r. root_of (parent_map uf) x r))"

definition uf_rel :: "UnionFind \<Rightarrow> string \<Rightarrow> string \<Rightarrow> bool" where
  "uf_rel uf x y = (x = y \<or> (\<exists>r. root_of (parent_map uf) x r \<and> root_of (parent_map uf) y r))"

definition same_component :: "(string \<times> string) list \<Rightarrow> string \<Rightarrow> string \<Rightarrow> bool" where
  "same_component es x y = ((x, y) \<in> (set es \<union> (set es)\<inverse>)\<^sup>*)"

(*LEMMAS*)

section \<open>Properties of roots\<close>

lemma root_of_is_root: "root_of m x r \<Longrightarrow> m r = Some r"
  by (induction rule: root_of.induct) simp_all

lemma root_of_dom: "root_of m x r \<Longrightarrow> m x \<noteq> None"
  by (induction rule: root_of.induct) simp_all

lemma root_of_det: "root_of m x r \<Longrightarrow> root_of m x s \<Longrightarrow> r = s"
proof (induction arbitrary: s rule: root_of.induct)
  case (root_self x)
  from root_self.prems root_self.hyps show ?case by (cases rule: root_of.cases) simp_all
next
  case (root_step x p r)
  from root_step.prems show ?case
  proof (cases rule: root_of.cases)
    case root_self
    then show ?thesis using root_step.hyps by simp
  next
    case (root_step q)
    then have "q = p" using root_step.hyps by simp
    then have "root_of m p s" using root_step(3) by simp
    then show ?thesis by (rule root_step.IH)
  qed
qed

lemma root_of_root: "m r = Some r \<Longrightarrow> root_of m r s \<Longrightarrow> s = r"
  using root_of_det[OF root_of.root_self[of m r], of s] by simp

lemma root_of_compress:
  assumes "root_of m x r"
  shows "root_of (m(x \<mapsto> r)) y s = root_of m y s"
proof
  have rr: "m r = Some r" using root_of_is_root[OF assms] .
  assume "root_of (m(x \<mapsto> r)) y s"
  then show "root_of m y s"
  proof (induction rule: root_of.induct)
    case (root_self y)
    show ?case
    proof (cases "y = x")
      case True
      then show ?thesis using root_self assms by simp
    next
      case False
      then show ?thesis using root_self by (simp add: root_of.root_self)
    qed
  next
    case (root_step y p s)
    show ?case
    proof (cases "y = x")
      case True
      then have "p = r" using root_step.hyps by simp
      then have "root_of m r s" using root_step.IH by simp
      then have "s = r" using rr by (intro root_of_root)
      then show ?thesis using assms True by simp
    next
      case False
      then have "m y = Some p" using root_step.hyps by simp
      then show ?thesis using root_step.hyps(2) root_step.IH by (rule root_of.root_step)
    qed
  qed
next
  have rr: "m r = Some r" using root_of_is_root[OF assms] .
  assume "root_of m y s"
  then show "root_of (m(x \<mapsto> r)) y s"
  proof (induction rule: root_of.induct)
    case (root_self y)
    show ?case
    proof (cases "y = x")
      case True
      then have "m x = Some x" using root_self by simp
      then have "r = x" using assms by (rule root_of_root)
      then show ?thesis using True by (simp add: root_of.root_self)
    next
      case False
      then show ?thesis using root_self by (simp add: root_of.root_self)
    qed
  next
    case (root_step y p s)
    show ?case
    proof (cases "y = x")
      case True
      have "root_of m x s" using root_step.hyps True root_of.root_step[of m y p s] by simp
      then have sr: "s = r" using assms by (intro root_of_det[of m x])
      have rx: "r \<noteq> x" using rr root_step.hyps True by auto
      then have "root_of (m(x \<mapsto> r)) r r" using rr by (simp add: root_of.root_self)
      then have "root_of (m(x \<mapsto> r)) x r" using rx root_of.root_step[of "m(x \<mapsto> r)" x r r] by simp
      then show ?thesis using True sr by blast
    next
      case False
      then have "(m(x \<mapsto> r)) y = Some p" using root_step.hyps by simp
      then show ?thesis using root_step.hyps(2) root_step.IH by (rule root_of.root_step)
    qed
  qed
qed

lemma root_of_link:
  assumes a: "m a = Some a" and b: "m b = Some b" and ab: "a \<noteq> b"
  shows "root_of (m(a \<mapsto> b)) y s = ((root_of m y s \<and> s \<noteq> a) \<or> (root_of m y a \<and> s = b))"
proof
  assume "root_of (m(a \<mapsto> b)) y s"
  then show "(root_of m y s \<and> s \<noteq> a) \<or> (root_of m y a \<and> s = b)"
  proof (induction rule: root_of.induct)
    case (root_self y)
    then have ya: "y \<noteq> a" and "m y = Some y" using ab by (auto split: if_splits)
    then show ?case using root_of.root_self[of m y] by simp
  next
    case (root_step y p s)
    show ?case
    proof (cases "y = a")
      case True
      then have "p = b" using root_step.hyps by simp
      then have "root_of m b s \<or> s = b" using root_step.IH by auto
      then have "s = b" using root_of_root[of m b s] b by auto
      then show ?thesis using True root_of.root_self[of m a] a by simp
    next
      case False
      then have my: "m y = Some p" using root_step.hyps by simp
      from root_step.IH show ?thesis
      proof
        assume "root_of m p s \<and> s \<noteq> a"
        then show ?thesis using root_of.root_step[of m y p, OF my root_step.hyps(2)] by simp
      next
        assume "root_of m p a \<and> s = b"
        then show ?thesis using root_of.root_step[of m y p, OF my root_step.hyps(2)] by simp
      qed
    qed
  qed
next
  have 1: "root_of m y s \<Longrightarrow> s \<noteq> a \<Longrightarrow> root_of (m(a \<mapsto> b)) y s"
  proof (induction rule: root_of.induct)
    case (root_self y)
    then show ?case by (simp add: root_of.root_self)
  next
    case (root_step y p s)
    then have "y \<noteq> a" using a by auto
    then have "(m(a \<mapsto> b)) y = Some p" using root_step.hyps by simp
    then show ?case using root_step.hyps(2) root_step.IH[OF root_step.prems] by (rule root_of.root_step)
  qed
  have bb: "root_of (m(a \<mapsto> b)) b b" using b ab by (simp add: root_of.root_self)
  have ab': "root_of (m(a \<mapsto> b)) a b" using ab bb root_of.root_step[of "m(a \<mapsto> b)" a b b] by simp
  have 2: "root_of m y t \<Longrightarrow> t = a \<Longrightarrow> root_of (m(a \<mapsto> b)) y b" for t
  proof (induction rule: root_of.induct)
    case (root_self y)
    then show ?case using ab' by blast
  next
    case (root_step y p s)
    then have "y \<noteq> a" using a by auto
    then have "(m(a \<mapsto> b)) y = Some p" using root_step.hyps by simp
    then show ?case using root_step.hyps(2) root_step.IH[OF root_step.prems] by (rule root_of.root_step)
  qed
  assume "(root_of m y s \<and> s \<noteq> a) \<or> (root_of m y a \<and> s = b)"
  then show "root_of (m(a \<mapsto> b)) y s" using 1 2 by blast
qed

lemma root_of_fresh:
  assumes fresh: "m x = None" and closed: "\<And>y p. m y = Some p \<Longrightarrow> m p \<noteq> None"
  shows "root_of (m(x \<mapsto> x)) y s = (root_of m y s \<or> (y = x \<and> s = x))"
proof
  assume "root_of (m(x \<mapsto> x)) y s"
  then show "root_of m y s \<or> (y = x \<and> s = x)"
  proof (induction rule: root_of.induct)
    case (root_self y)
    show ?case
    proof (cases "y = x")
      case True
      then show ?thesis by simp
    next
      case False
      then have "m y = Some y" using root_self by simp
      then show ?thesis using root_of.root_self[of m y] by simp
    qed
  next
    case (root_step y p s)
    then have yx: "y \<noteq> x" by auto
    then have my: "m y = Some p" using root_step.hyps by simp
    then have "p \<noteq> x" using closed[OF my] fresh by auto
    then have "root_of m p s" using root_step.IH by simp
    then show ?case using root_of.root_step[of m y p, OF my root_step.hyps(2)] by simp
  qed
next
  have 1: "root_of m y s \<Longrightarrow> root_of (m(x \<mapsto> x)) y s"
  proof (induction rule: root_of.induct)
    case (root_self y)
    then have "y \<noteq> x" using fresh by auto
    then show ?case using root_self by (simp add: root_of.root_self)
  next
    case (root_step y p s)
    then have "y \<noteq> x" using fresh by auto
    then have "(m(x \<mapsto> x)) y = Some p" using root_step.hyps by simp
    then show ?case using root_step.hyps(2) root_step.IH by (rule root_of.root_step)
  qed
  have 2: "root_of (m(x \<mapsto> x)) x x" by (simp add: root_of.root_self)
  assume "root_of m y s \<or> (y = x \<and> s = x)"
  then show "root_of (m(x \<mapsto> x)) y s" using 1 2 by blast
qed

lemma makeSet_has: "map_of (parent (makeSet uf x)) x \<noteq> None"
  by (simp add: makeSet_def update_conv')

lemma makeSet_idem: "map_of (parent uf) x \<noteq> None \<Longrightarrow> makeSet uf x = uf"
  by (auto simp: makeSet_def)

lemma find_uf_root:
  assumes "root_of m x r"
  shows "m = parent_map uf \<Longrightarrow>
    \<exists>uf'. find_uf uf x = Some (r, uf') \<and> rank uf' = rank uf
       \<and> map fst (parent uf') = map fst (parent uf)
       \<and> (\<forall>y s. root_of (parent_map uf') y s = root_of (parent_map uf) y s)"
  using assms
proof (induction arbitrary: uf rule: root_of.induct)
  case (root_self x)
  then have "makeSet uf x = uf" by (simp add: makeSet_idem parent_map_def)
  then show ?case using root_self by (subst find_uf.simps) (simp add: parent_map_def)
next
  case (root_step x p r)
  have ms: "makeSet uf x = uf" using root_step by (simp add: makeSet_idem parent_map_def)
  from root_step.IH[OF root_step.prems] obtain uf' where
    f: "find_uf uf p = Some (r, uf')" and rk: "rank uf' = rank uf"
    and ks: "map fst (parent uf') = map fst (parent uf)"
    and rt: "\<forall>y s. root_of (parent_map uf') y s = root_of (parent_map uf) y s" by blast
  let ?uf = "uf'\<lparr>parent := AList.update x r (parent uf')\<rparr>"
  have xr: "root_of (parent_map uf) x r"
    using root_of.root_step[of m x p r] root_step by simp
  then have xr': "root_of (parent_map uf') x r" using rt by simp
  have fx: "find_uf uf x = Some (r, ?uf)"
    using root_step.hyps root_step.prems f ms by (subst find_uf.simps) (simp add: parent_map_def)
  have xin: "x \<in> set (map fst (parent uf'))"
    using root_of_dom[OF xr'] by (simp add: parent_map_def map_of_eq_None_iff)
  have keys: "map fst (parent ?uf) = map fst (parent uf)"
    using xin ks by (simp add: update_keys del: set_map)
  have "parent_map ?uf = (parent_map uf')(x \<mapsto> r)" by (simp add: parent_map_def update_conv')
  then have "\<forall>y s. root_of (parent_map ?uf) y s = root_of (parent_map uf) y s"
    using root_of_compress[OF xr'] rt by simp
  then show ?case using fx rk keys by simp
qed

lemma uf_inv_closed:
  assumes "uf_inv uf" and "parent_map uf y = Some p"
  shows "parent_map uf p \<noteq> None"
proof -
  obtain r where "root_of (parent_map uf) y r" using assms by (auto simp: uf_inv_def)
  then show ?thesis
  proof (cases rule: root_of.cases)
    case root_self
    then show ?thesis using assms by simp
  next
    case (root_step q)
    then have "q = p" using assms by simp
    then show ?thesis using root_step root_of_dom[of "parent_map uf" p r] by simp
  qed
qed

lemma makeSet_old: "parent_map uf x \<noteq> None \<Longrightarrow> makeSet uf x = uf"
  by (simp add: makeSet_idem parent_map_def)

lemma makeSet_root_of:
  assumes "uf_inv uf"
  shows "root_of (parent_map (makeSet uf x)) y s = (root_of (parent_map uf) y s \<or> (parent_map uf x = None \<and> y = x \<and> s = x))"
proof (cases "parent_map uf x = None")
  case True
  then have "parent_map (makeSet uf x) = (parent_map uf)(x \<mapsto> x)"
    by (simp add: makeSet_def parent_map_def update_conv')
  then show ?thesis
    using root_of_fresh[of "parent_map uf" x y s, OF True] uf_inv_closed[OF assms] True by simp
next
  case False
  then have "makeSet uf x = uf" by (rule makeSet_old)
  then show ?thesis using False by auto
qed

lemma makeSet_dom: "parent_map (makeSet uf x) y \<noteq> None \<longleftrightarrow> (parent_map uf y \<noteq> None \<or> y = x)"
  by (auto simp: makeSet_def parent_map_def update_conv')

lemma makeSet_inv:
  assumes "uf_inv uf"
  shows "uf_inv (makeSet uf x)"
  unfolding uf_inv_def
proof (intro allI impI)
  fix y assume "parent_map (makeSet uf x) y \<noteq> None"
  then have "parent_map uf y \<noteq> None \<or> (parent_map uf y = None \<and> y = x)" using makeSet_dom by blast
  then show "\<exists>r. root_of (parent_map (makeSet uf x)) y r"
    using assms makeSet_root_of[OF assms] by (auto simp: uf_inv_def)
qed

lemma makeSet_rel:
  assumes "uf_inv uf"
  shows "uf_rel (makeSet uf x) a b = uf_rel uf a b"
proof -
  have "\<not> (parent_map uf x = None \<and> root_of (parent_map uf) c x)" for c
    using root_of_is_root[of "parent_map uf" c x] by auto
  then show ?thesis
    unfolding uf_rel_def makeSet_root_of[OF assms] by blast
qed

lemma find_uf_makeSet: "find_uf (makeSet uf x) x = find_uf uf x"
proof -
  have "makeSet (makeSet uf x) x = makeSet uf x"
    using makeSet_has[of uf x] by (simp add: makeSet_idem)
  then show ?thesis
    by (subst find_uf.simps, subst (2) find_uf.simps) (simp split: option.split)
qed

lemma find_uf_spec:
  assumes "uf_inv uf"
  shows "\<exists>r uf'. find_uf uf x = Some (r, uf') \<and> uf_inv uf' \<and> root_of (parent_map uf') x r
       \<and> rank uf' = rank (makeSet uf x)
       \<and> map fst (parent uf') = map fst (parent (makeSet uf x))
       \<and> (\<forall>y s. root_of (parent_map uf') y s = root_of (parent_map (makeSet uf x)) y s)"
proof -
  let ?u = "makeSet uf x"
  have inv: "uf_inv ?u" using assms by (rule makeSet_inv)
  have "parent_map ?u x \<noteq> None" using makeSet_has by (simp add: parent_map_def)
  then obtain r where r: "root_of (parent_map ?u) x r" using inv by (auto simp: uf_inv_def)
  from find_uf_root[OF r refl] obtain uf' where
    f: "find_uf ?u x = Some (r, uf')" and rk: "rank uf' = rank ?u"
    and ks: "map fst (parent uf') = map fst (parent ?u)"
    and rt: "\<forall>y s. root_of (parent_map uf') y s = root_of (parent_map ?u) y s" by blast
  have dom: "parent_map uf' y \<noteq> None \<longleftrightarrow> parent_map ?u y \<noteq> None" for y
    using ks by (simp add: parent_map_def map_of_eq_None_iff del: set_map flip: set_map)
  have "uf_inv uf'" using inv rt dom by (simp add: uf_inv_def)
  then show ?thesis using f rk ks rt r find_uf_makeSet by simp
qed

lemma find_uf_rel:
  assumes "uf_inv uf" and "find_uf uf x = Some (r, uf')"
  shows "uf_inv uf'" and "root_of (parent_map uf') x r" and "uf_rel uf' a b = uf_rel uf a b"
    and "root_of (parent_map uf) y s \<Longrightarrow> root_of (parent_map uf') y s"
proof -
  from find_uf_spec[OF assms(1), of x] assms(2) have
    i: "uf_inv uf'" and r: "root_of (parent_map uf') x r"
    and rt: "\<forall>y s. root_of (parent_map uf') y s = root_of (parent_map (makeSet uf x)) y s" by auto
  show "uf_inv uf'" by (rule i)
  show "root_of (parent_map uf') x r" by (rule r)
  have "uf_rel uf' a b = uf_rel (makeSet uf x) a b" by (simp add: uf_rel_def rt)
  then show "uf_rel uf' a b = uf_rel uf a b" using makeSet_rel[OF assms(1)] by simp
  show "root_of (parent_map uf) y s \<Longrightarrow> root_of (parent_map uf') y s"
    using rt makeSet_root_of[OF assms(1)] by simp
qed

lemma uf_rel_refl: "uf_rel uf a a"
  by (simp add: uf_rel_def)

lemma uf_rel_sym: "uf_rel uf a b \<Longrightarrow> uf_rel uf b a"
  by (auto simp: uf_rel_def)

lemma uf_rel_trans: "uf_rel uf a b \<Longrightarrow> uf_rel uf b c \<Longrightarrow> uf_rel uf a c"
  unfolding uf_rel_def using root_of_det[of "parent_map uf" b] by blast

lemma uf_rel_root: "root_of (parent_map uf) x r \<Longrightarrow> uf_rel uf z x = root_of (parent_map uf) z r"
  unfolding uf_rel_def using root_of_det[of "parent_map uf" x] by blast

lemma link_spec:
  assumes inv: "uf_inv uf" and xa: "root_of (parent_map uf) x a" and yb: "root_of (parent_map uf) y b"
    and ab: "a \<noteq> b" and parent_map': "parent_map uf' = (parent_map uf)(a \<mapsto> b)"
  shows "uf_inv uf'"
    and "uf_rel uf' z w =
      (uf_rel uf z w \<or> (uf_rel uf z x \<and> uf_rel uf y w) \<or> (uf_rel uf z y \<and> uf_rel uf x w))"
proof -
  have a: "parent_map uf a = Some a" and b: "parent_map uf b = Some b"
    using root_of_is_root[OF xa] root_of_is_root[OF yb] by simp_all
  have lk: "root_of (parent_map uf') c s =
      ((root_of (parent_map uf) c s \<and> s \<noteq> a) \<or> (root_of (parent_map uf) c a \<and> s = b))" for c s
    unfolding parent_map' by (rule root_of_link[OF a b ab])
  show "uf_inv uf'"
    unfolding uf_inv_def
  proof (intro allI impI)
    fix c assume "parent_map uf' c \<noteq> None"
    then have "parent_map uf c \<noteq> None" using a by (auto simp: parent_map' split: if_splits)
    then obtain r where "root_of (parent_map uf) c r" using inv by (auto simp: uf_inv_def)
    then show "\<exists>r. root_of (parent_map uf') c r" unfolding lk by (cases "r = a") auto
  qed
  have zx: "uf_rel uf c x = root_of (parent_map uf) c a" for c by (rule uf_rel_root[OF xa])
  have zy: "uf_rel uf c y = root_of (parent_map uf) c b" for c by (rule uf_rel_root[OF yb])
  have xw: "uf_rel uf x c = root_of (parent_map uf) c a" for c using zx uf_rel_sym by blast
  have yw: "uf_rel uf y c = root_of (parent_map uf) c b" for c using zy uf_rel_sym by blast
  have "(\<exists>s. root_of (parent_map uf') z s \<and> root_of (parent_map uf') w s) =
      ((\<exists>s. root_of (parent_map uf) z s \<and> root_of (parent_map uf) w s)
        \<or> (root_of (parent_map uf) z a \<and> root_of (parent_map uf) w b) \<or> (root_of (parent_map uf) z b \<and> root_of (parent_map uf) w a))"
    unfolding lk using ab by blast
  then show "uf_rel uf' z w =
      (uf_rel uf z w \<or> (uf_rel uf z x \<and> uf_rel uf y w) \<or> (uf_rel uf z y \<and> uf_rel uf x w))"
    unfolding zx zy xw yw unfolding uf_rel_def by blast
qed

lemma parent_map_update: "parent_map (uf\<lparr>parent := AList.update a b (parent uf)\<rparr>) = (parent_map uf)(a \<mapsto> b)"
  by (simp add: parent_map_def update_conv')

lemma parent_map_rank_update:
  "parent_map (uf\<lparr>parent := AList.update a b (parent uf), rank := rk'\<rparr>) = (parent_map uf)(a \<mapsto> b)"
  by (simp add: parent_map_def update_conv')

lemma union_uf_spec:
  assumes inv: "uf_inv uf"
  shows "\<exists>uf'. union_uf uf x y = Some uf' \<and> uf_inv uf' \<and>
      (\<forall>z w. uf_rel uf' z w =
        (uf_rel uf z w \<or> (uf_rel uf z x \<and> uf_rel uf y w) \<or> (uf_rel uf z y \<and> uf_rel uf x w)))"
proof -
  obtain rx uf1 where f1: "find_uf uf x = Some (rx, uf1)"
    using find_uf_spec[OF inv, of x] by blast
  note p1 = find_uf_rel[OF inv f1]
  obtain ry uf2 where f2: "find_uf uf1 y = Some (ry, uf2)"
    using find_uf_spec[OF p1(1), of y] by blast
  note p2 = find_uf_rel[OF p1(1) f2]
  have inv2: "uf_inv uf2" by (rule p2(1))
  have xr: "root_of (parent_map uf2) x rx" using p2(4)[OF p1(2)] .
  have yr: "root_of (parent_map uf2) y ry" by (rule p2(2))
  have rel2: "uf_rel uf2 a b = uf_rel uf a b" for a b using p2(3) p1(3) by simp
  show ?thesis
  proof (cases "rx = ry")
    case True
    then have u: "union_uf uf x y = Some uf2" using f1 f2 by (simp add: union_uf_def)
    have "uf_rel uf2 x y" using xr yr True by (auto simp: uf_rel_def)
    then have xy: "uf_rel uf x y" using rel2 by simp
    have "uf_rel uf z w =
        (uf_rel uf z w \<or> (uf_rel uf z x \<and> uf_rel uf y w) \<or> (uf_rel uf z y \<and> uf_rel uf x w))" for z w
      using xy uf_rel_sym[of uf] uf_rel_trans[of uf] by blast
    then show ?thesis using u inv2 rel2 by simp
  next
    case False
    let ?A = "uf2\<lparr>parent := AList.update rx ry (parent uf2)\<rparr>"
    let ?B = "uf2\<lparr>parent := AList.update ry rx (parent uf2)\<rparr>"
    let ?C = "uf2\<lparr>parent := AList.update ry rx (parent uf2),
                 rank := AList.update rx (js_succ (map_of (rank uf2) rx)) (rank uf2)\<rparr>"
    have u: "union_uf uf x y = Some ?A \<or> union_uf uf x y = Some ?B \<or> union_uf uf x y = Some ?C"
      using f1 f2 False by (simp add: union_uf_def Let_def)
    have A: "uf_inv ?A \<and> (\<forall>z w. uf_rel ?A z w =
        (uf_rel uf2 z w \<or> (uf_rel uf2 z x \<and> uf_rel uf2 y w) \<or> (uf_rel uf2 z y \<and> uf_rel uf2 x w)))"
      using link_spec[OF inv2 xr yr False parent_map_update] by blast
    have ne: "ry \<noteq> rx" using False by simp
    have B: "uf_inv ?B \<and> (\<forall>z w. uf_rel ?B z w =
        (uf_rel uf2 z w \<or> (uf_rel uf2 z x \<and> uf_rel uf2 y w) \<or> (uf_rel uf2 z y \<and> uf_rel uf2 x w)))"
      using link_spec[OF inv2 yr xr ne parent_map_update] by blast
    have C: "uf_inv ?C \<and> (\<forall>z w. uf_rel ?C z w =
        (uf_rel uf2 z w \<or> (uf_rel uf2 z x \<and> uf_rel uf2 y w) \<or> (uf_rel uf2 z y \<and> uf_rel uf2 x w)))"
      using link_spec[OF inv2 yr xr ne parent_map_rank_update] by blast
    from u show ?thesis
    proof (elim disjE)
      assume "union_uf uf x y = Some ?A"
      then show ?thesis using A unfolding rel2 by blast
    next
      assume "union_uf uf x y = Some ?B"
      then show ?thesis using B unfolding rel2 by blast
    next
      assume "union_uf uf x y = Some ?C"
      then show ?thesis using C unfolding rel2 by blast
    qed
  qed
qed

lemma connected_uf_spec:
  assumes inv: "uf_inv uf"
  shows "\<exists>uf'. connected_uf uf x y = Some (uf_rel uf x y, uf') \<and> uf_inv uf'
      \<and> (\<forall>a b. uf_rel uf' a b = uf_rel uf a b)"
proof -
  obtain rx uf1 where f1: "find_uf uf x = Some (rx, uf1)"
    using find_uf_spec[OF inv, of x] by blast
  note p1 = find_uf_rel[OF inv f1]
  obtain ry uf2 where f2: "find_uf uf1 y = Some (ry, uf2)"
    using find_uf_spec[OF p1(1), of y] by blast
  note p2 = find_uf_rel[OF p1(1) f2]
  have xr: "root_of (parent_map uf2) x rx" using p2(4)[OF p1(2)] .
  have yr: "root_of (parent_map uf2) y ry" by (rule p2(2))
  have rel2: "uf_rel uf2 a b = uf_rel uf a b" for a b using p2(3) p1(3) by simp
  have "uf_rel uf2 x y = root_of (parent_map uf2) x ry" by (rule uf_rel_root[OF yr])
  also have "\<dots> = (rx = ry)" using xr root_of_det[of "parent_map uf2" x rx ry] by auto
  finally have "(rx = ry) = uf_rel uf x y" using rel2 by simp
  then show ?thesis using f1 f2 p2(1) rel2 by (simp add: connected_uf_def)
qed

lemma uf_rel_rtrancl:
  "(x, y) \<in> {(a, b). uf_rel uf a b}\<^sup>* \<Longrightarrow> uf_rel uf x y"
proof (induction rule: rtrancl_induct)
  case base
  show ?case by (rule uf_rel_refl)
next
  case (step y z)
  then show ?case using uf_rel_trans[of uf x y z] by simp
qed

lemma unions_spec:
  assumes "uf_inv uf"
  shows "\<exists>uf'. unions uf es = Some uf' \<and> uf_inv uf' \<and>
      (\<forall>x y. uf_rel uf' x y = ((x, y) \<in> ({(a, b). uf_rel uf a b} \<union> set es \<union> (set es)\<inverse>)\<^sup>*))"
  using assms
proof (induction es arbitrary: uf)
  case Nil
  have "((x, y) \<in> {(a, b). uf_rel uf a b}\<^sup>*) = uf_rel uf x y" for x y
    using uf_rel_rtrancl[of x y uf] by auto
  then show ?case using Nil by simp
next
  case (Cons e es)
  obtain a b where e: "e = (a, b)" by (cases e)
  from union_uf_spec[OF Cons.prems, of a b] obtain uf1 where
    u: "union_uf uf a b = Some uf1" and inv1: "uf_inv uf1"
    and rel1: "\<forall>z w. uf_rel uf1 z w =
        (uf_rel uf z w \<or> (uf_rel uf z a \<and> uf_rel uf b w) \<or> (uf_rel uf z b \<and> uf_rel uf a w))"
    by blast
  from Cons.IH[OF inv1] obtain uf' where
    us: "unions uf1 es = Some uf'" and inv': "uf_inv uf'"
    and rel': "\<forall>x y. uf_rel uf' x y =
        ((x, y) \<in> ({(a, b). uf_rel uf1 a b} \<union> set es \<union> (set es)\<inverse>)\<^sup>*)"
    by blast
  let ?T1 = "{(a, b). uf_rel uf1 a b} \<union> set es \<union> (set es)\<inverse>"
  let ?T = "{(a, b). uf_rel uf a b} \<union> set (e # es) \<union> (set (e # es))\<inverse>"
  have ab: "(a, b) \<in> ?T" and ba: "(b, a) \<in> ?T" using e by auto
  have R: "uf_rel uf z w \<Longrightarrow> (z, w) \<in> ?T" for z w by simp
  have "?T1 \<subseteq> ?T\<^sup>*"
  proof
    fix p assume p: "p \<in> ?T1"
    obtain z w where zw: "p = (z, w)" by (cases p)
    from p zw consider "uf_rel uf1 z w" | "(z, w) \<in> set es \<union> (set es)\<inverse>" by auto
    then have "(z, w) \<in> ?T\<^sup>*"
    proof cases
      case 1
      then consider "uf_rel uf z w" | "uf_rel uf z a \<and> uf_rel uf b w" | "uf_rel uf z b \<and> uf_rel uf a w"
        using rel1 by blast
      then show ?thesis
      proof cases
        case 1
        then show ?thesis using R by blast
      next
        case 2
        then have "(z, a) \<in> ?T" "(b, w) \<in> ?T" using R by blast+
        then show ?thesis using ab
          by (meson r_into_rtrancl rtrancl_trans)
      next
        case 3
        then have "(z, b) \<in> ?T" "(a, w) \<in> ?T" using R by blast+
        then show ?thesis using ba
          by (meson r_into_rtrancl rtrancl_trans)
      qed
    next
      case 2
      then have "(z, w) \<in> ?T" by auto
      then show ?thesis by blast
    qed
    then show "p \<in> ?T\<^sup>*" using zw by simp
  qed
  then have 1: "?T1\<^sup>* \<subseteq> ?T\<^sup>*" by (rule rtrancl_subset_rtrancl)
  have "?T \<subseteq> ?T1"
    using rel1 e uf_rel_refl[of uf] by auto
  then have 2: "?T\<^sup>* \<subseteq> ?T1\<^sup>*" by (rule rtrancl_mono)
  have "?T1\<^sup>* = ?T\<^sup>*" using 1 2 by blast
  then show ?case using u us inv' rel' e by simp
qed

lemma uf_inv_new: "uf_inv UnionFind_new"
  by (simp add: uf_inv_def parent_map_def UnionFind_new_def)

lemma uf_rel_new: "uf_rel UnionFind_new a b = (a = b)"
  using root_of_dom[of "parent_map UnionFind_new" a]
  by (auto simp: uf_rel_def parent_map_def UnionFind_new_def)

text \<open>
  Claim C3. Starting from a fresh \<open>UnionFind\<close>, every sequence of \<open>union\<close> calls
  returns, and afterwards \<open>connected(x, y)\<close> returns, for every pair of ids, exactly
  whether \<open>x\<close> and \<open>y\<close> lie in the same connected component of the undirected graph
  whose edges are the argument pairs of the calls made (an id that occurs in no call is
  related to itself only).
\<close>

theorem C3_union_find_connected:
  "\<exists>uf. unions UnionFind_new es = Some uf \<and>
     (\<forall>x y. \<exists>uf'. connected_uf uf x y = Some (same_component es x y, uf'))"
proof -
  from unions_spec[OF uf_inv_new, of es] obtain uf where
    us: "unions UnionFind_new es = Some uf" and inv: "uf_inv uf"
    and rel: "\<forall>x y. uf_rel uf x y =
        ((x, y) \<in> ({(a, b). uf_rel UnionFind_new a b} \<union> set es \<union> (set es)\<inverse>)\<^sup>*)"
    by blast
  have "{(a, b). uf_rel UnionFind_new a b} = Id" by (auto simp: uf_rel_new)
  moreover have "Id \<union> set es \<union> (set es)\<inverse> = (set es \<union> (set es)\<inverse>)\<^sup>=" by blast
  ultimately have "({(a, b). uf_rel UnionFind_new a b} \<union> set es \<union> (set es)\<inverse>)\<^sup>*
      = (set es \<union> (set es)\<inverse>)\<^sup>*"
    by (simp only: rtrancl_reflcl)
  then have rel': "uf_rel uf x y = same_component es x y" for x y
    using rel by (simp add: same_component_def)
  have "\<exists>uf'. connected_uf uf x y = Some (same_component es x y, uf')" for x y
    using connected_uf_spec[OF inv, of x y] rel' by auto
  then show ?thesis using us by blast
qed

lemma foldl_makeSet_inv:
  "uf_inv uf \<Longrightarrow> uf_inv (foldl (\<lambda>uf node. makeSet uf (node_id node)) uf nodes)"
  by (induction nodes arbitrary: uf) (simp_all add: makeSet_inv)

lemma find_uf_keys:
  assumes "uf_inv uf" and "find_uf uf x = Some (r, uf')"
  shows "map fst (parent uf') = map fst (parent (makeSet uf x))"
    and "(\<forall>y s. root_of (parent_map uf') y s = root_of (parent_map (makeSet uf x)) y s)"
  using find_uf_spec[OF assms(1), of x] assms(2) by auto

lemma nodeToNet_loop_total:
  "uf_inv uf \<Longrightarrow> \<exists>nodeToNet uf'. nodeToNet_loop ns uf acc = Some (nodeToNet, uf') \<and> uf_inv uf'"
proof (induction ns arbitrary: uf acc)
  case Nil
  then show ?case by simp
next
  case (Cons n ns)
  obtain r uf1 where f: "find_uf uf (node_id n) = Some (r, uf1)"
    using find_uf_spec[OF Cons.prems, of "node_id n"] by blast
  have "uf_inv uf1" using find_uf_rel(1)[OF Cons.prems f] .
  from Cons.IH[OF this] show ?case using f by simp
qed

lemma buildElectricalNets_total:
  "\<exists>uf nodeToNet. buildElectricalNets nodes connections = Some (uf, nodeToNet) \<and> uf_inv uf"
proof -
  let ?u0 = "foldl (\<lambda>uf node. makeSet uf (node_id node)) UnionFind_new nodes"
  have "uf_inv ?u0" by (rule foldl_makeSet_inv[OF uf_inv_new])
  from unions_spec[OF this] obtain uf1 where
    u: "unions ?u0 (map (\<lambda>conn. (fromNodeId conn, toNodeId conn)) connections) = Some uf1"
    and i1: "uf_inv uf1" by blast
  from nodeToNet_loop_total[OF i1, of nodes "[]"] obtain n2n uf2 where
    "nodeToNet_loop nodes uf1 [] = Some (n2n, uf2)" and "uf_inv uf2" by blast
  then show ?thesis using u by (simp add: buildElectricalNets_def)
qed

lemma in_keys_iff: "(parent_map uf x \<noteq> None) = (x \<in> set (map fst (parent uf)))"
  by (simp add: parent_map_def map_of_eq_None_iff)

lemma getRoots_loop_spec:
  assumes "uf_inv uf" and "set es \<subseteq> set (map fst (parent uf))" and "distinct acc"
  shows "\<exists>roots uf'. getRoots_loop es uf acc = Some (roots, uf') \<and> uf_inv uf' \<and> distinct roots
      \<and> set roots = set acc \<union> {r. \<exists>e\<in>set es. root_of (parent_map uf) e r}
      \<and> map fst (parent uf') = map fst (parent uf)
      \<and> (\<forall>y s. root_of (parent_map uf') y s = root_of (parent_map uf) y s)"
  using assms
proof (induction es arbitrary: uf acc)
  case Nil
  then show ?case by simp
next
  case (Cons e es)
  have "e \<in> set (map fst (parent uf))" using Cons.prems(2) by auto
  then have ein: "parent_map uf e \<noteq> None" by (simp only: in_keys_iff)
  then have ms: "makeSet uf e = uf" by (rule makeSet_old)
  obtain r uf1 where f: "find_uf uf e = Some (r, uf1)"
    using find_uf_spec[OF Cons.prems(1), of e] by blast
  have i1: "uf_inv uf1" and er: "root_of (parent_map uf1) e r"
    using find_uf_rel(1,2)[OF Cons.prems(1) f] by simp_all
  have ks: "map fst (parent uf1) = map fst (parent uf)"
    and rt: "\<forall>y s. root_of (parent_map uf1) y s = root_of (parent_map uf) y s"
    using find_uf_keys[OF Cons.prems(1) f] ms by simp_all
  let ?acc = "if r \<in> set acc then acc else acc @ [r]"
  have d: "distinct ?acc" using Cons.prems(3) by simp
  have sub: "set es \<subseteq> set (map fst (parent uf1))" using Cons.prems(2) ks by simp
  from Cons.IH[OF i1 sub d] obtain roots uf' where
    g: "getRoots_loop es uf1 ?acc = Some (roots, uf')" and i': "uf_inv uf'" and dr: "distinct roots"
    and sr: "set roots = set ?acc \<union> {r. \<exists>e\<in>set es. root_of (parent_map uf1) e r}"
    and ks': "map fst (parent uf') = map fst (parent uf1)"
    and rt': "\<forall>y s. root_of (parent_map uf') y s = root_of (parent_map uf1) y s" by blast
  have er0: "root_of (parent_map uf) e r" using er rt by simp
  have "{r'. root_of (parent_map uf) e r'} = {r}"
    using er0 root_of_det[of "parent_map uf" e] by blast
  then have "set roots = set acc \<union> {r. \<exists>e\<in>set (e # es). root_of (parent_map uf) e r}"
    using sr rt by auto
  then show ?case using f g i' dr ks ks' rt rt' by simp
qed

lemma getRoots_spec:
  assumes "uf_inv uf"
  shows "\<exists>roots uf'. getRoots uf = Some (roots, uf') \<and> distinct roots
      \<and> set roots = {r. parent_map uf r = Some r}"
proof -
  from getRoots_loop_spec[OF assms, of "map fst (parent uf)" "[]"] obtain roots uf' where
    g: "getRoots_loop (map fst (parent uf)) uf [] = Some (roots, uf')" and d: "distinct roots"
    and s: "set roots = set [] \<union> {r. \<exists>e\<in>set (map fst (parent uf)). root_of (parent_map uf) e r}"
    by auto
  have "{r. \<exists>e\<in>set (map fst (parent uf)). root_of (parent_map uf) e r} = {r. parent_map uf r = Some r}"
  proof (intro set_eqI iffI; clarify)
    fix r e assume "root_of (parent_map uf) e r"
    then show "parent_map uf r = Some r" by (rule root_of_is_root)
  next
    fix r assume r: "parent_map uf r = Some r"
    then have "r \<in> set (map fst (parent uf))" using in_keys_iff[of uf r] by simp
    moreover have "root_of (parent_map uf) r r" using r by (rule root_of.root_self)
    ultimately show "\<exists>e\<in>set (map fst (parent uf)). root_of (parent_map uf) e r" by blast
  qed
  then show ?thesis using g d s by (simp add: getRoots_def)
qed

lemma assignNetNames_total:
  assumes "uf_inv uf"
  shows "\<exists>netNames groundNet. assignNetNames uf nodes = Some (netNames, groundNet)
     \<and> (groundNet = None \<longleftrightarrow> List.find (\<lambda>n. role n = Some ''battery_minus'') nodes = None)"
proof (cases "List.find (\<lambda>n. role n = Some ''battery_minus'') nodes")
  case None
  obtain roots uf' where "getRoots uf = Some (roots, uf')"
    using getRoots_spec[OF assms] by blast
  then show ?thesis using None by (simp add: assignNetNames_def)
next
  case (Some bm)
  obtain g uf1 where f: "find_uf uf (node_id bm) = Some (g, uf1)"
    using find_uf_spec[OF assms, of "node_id bm"] by blast
  have "uf_inv uf1" using find_uf_rel(1)[OF assms f] .
  then obtain roots uf' where "getRoots uf1 = Some (roots, uf')"
    using getRoots_spec by blast
  then show ?thesis using Some f by (simp add: assignNetNames_def)
qed

lemma initBulbStates_fields:
  "hasClosedLoop (initBulbStates components r) = hasClosedLoop r"
  "bulbsOnCount (initBulbStates components r) = bulbsOnCount r"
  "nodeVoltages (initBulbStates components r) = nodeVoltages r"
  "totalCurrent (initBulbStates components r) = totalCurrent r"
  "batteryIndices (initBulbStates components r) = batteryIndices r"
  unfolding initBulbStates_def
  by (induction components arbitrary: r; simp)+

lemma initBulbStates_bulbStates:
  "map_of (bulbStates (initBulbStates components r)) k =
     (if \<exists>c\<in>set components. ctype c = ''bulb'' \<and> comp_id c = k then Some offState
      else map_of (bulbStates r) k)"
  unfolding initBulbStates_def
  by (induction components arbitrary: r) (auto simp: update_conv')

text \<open>
  Claim C2 (amended). When the node or the component collection is empty, or no node has
  role \<open>battery_minus\<close>, \<open>simulateCircuit\<close> returns before the circuit is created
  (whatever the cktsim calls would do), with \<open>hasClosedLoop = false\<close>,
  \<open>bulbsOnCount = 0\<close>, \<open>totalCurrent = 0\<close>, empty \<open>batteryIndices\<close> and empty
  \<open>nodeVoltages\<close>. \<open>bulbStates\<close> is empty when a collection is empty; otherwise it holds
  the initial off state for the id of every bulb component (and nothing else).
\<close>

theorem C2_incomplete_circuit:
  assumes "nodes = [] \<or> components = [] \<or> (\<forall>n\<in>set nodes. role n \<noteq> Some ''battery_minus'')"
  shows "\<exists>r. translateCircuit K nodes connections components = Some (Inr (Done r))
     \<and> simulateCircuit K nodes connections components = Some (Inr r)
     \<and> \<not> hasClosedLoop r \<and> bulbsOnCount r = 0 \<and> totalCurrent r = 0 \<and> batteryIndices r = []
     \<and> nodeVoltages r = []
     \<and> (\<forall>k. map_of (bulbStates r) k =
           (if nodes \<noteq> [] \<and> components \<noteq> [] \<and> (\<exists>c\<in>set components. ctype c = ''bulb'' \<and> comp_id c = k)
            then Some offState else None))"
proof (cases "nodes = [] \<or> components = []")
  case True
  then have "translateCircuit K nodes connections components = Some (Inr (Done emptyResult))"
    by (simp add: translateCircuit_def)
  then show ?thesis using True by (auto simp: simulateCircuit_def emptyResult_def)
next
  case False
  then have nm: "\<forall>n\<in>set nodes. role n \<noteq> Some ''battery_minus''" using assms by blast
  have fnd: "List.find (\<lambda>n. role n = Some ''battery_minus'') nodes = None"
    using nm by (simp add: find_None_iff)
  obtain uf nodeToNet where b: "buildElectricalNets nodes connections = Some (uf, nodeToNet)"
    and inv: "uf_inv uf" using buildElectricalNets_total by blast
  obtain netNames where a: "assignNetNames uf nodes = Some (netNames, None)"
    using assignNetNames_total[OF inv, of nodes] fnd by auto
  let ?r = "initBulbStates components emptyResult"
  have t: "translateCircuit K nodes connections components = Some (Inr (Done ?r))"
    using False a b by (simp add: translateCircuit_def)
  then have s: "simulateCircuit K nodes connections components = Some (Inr ?r)"
    by (simp add: simulateCircuit_def)
  have "\<forall>k. map_of (bulbStates ?r) k =
           (if nodes \<noteq> [] \<and> components \<noteq> [] \<and> (\<exists>c\<in>set components. ctype c = ''bulb'' \<and> comp_id c = k)
            then Some offState else None)"
    using False by (simp add: initBulbStates_bulbStates emptyResult_def)
  then show ?thesis using t s
    by (simp add: initBulbStates_fields emptyResult_def)
qed

definition ex_bulb_nodes :: "Node list" where
  "ex_bulb_nodes = [\<lparr>node_id = ''1'', componentId = ''L1'', role = Some ''bulb''\<rparr>,
                    \<lparr>node_id = ''2'', componentId = ''L1'', role = Some ''bulb''\<rparr>]"

definition ex_bulb_comps :: "Component list" where
  "ex_bulb_comps = [\<lparr>comp_id = ''L1'', ctype = ''bulb'', resistance = None\<rparr>]"

definition ex_failing_solver :: "Netlist \<Rightarrow> exn + (string \<times> real) list option" where
  "ex_failing_solver = (\<lambda>c. Inl Exception)"

theorem C2_counterexample:
  "map_option (map_sum id bulbStates)
     (simulateCircuit (recorder ex_failing_solver) ex_bulb_nodes [] ex_bulb_comps)
   = Some (Inr [(''L1'', offState)])"
  by code_simp

theorem C2_witness:
  "(ex_bulb_nodes = [] \<or> ex_bulb_comps = [] \<or> (\<forall>n\<in>set ex_bulb_nodes. role n \<noteq> Some ''battery_minus''))
   \<and> (\<exists>r. translateCircuit (recorder ex_failing_solver) ex_bulb_nodes [] ex_bulb_comps = Some (Inr (Done r))
     \<and> simulateCircuit (recorder ex_failing_solver) ex_bulb_nodes [] ex_bulb_comps = Some (Inr r)
     \<and> \<not> hasClosedLoop r \<and> bulbsOnCount r = 0 \<and> totalCurrent r = 0 \<and> batteryIndices r = []
     \<and> nodeVoltages r = []
     \<and> (\<forall>k. map_of (bulbStates r) k =
           (if ex_bulb_nodes \<noteq> [] \<and> ex_bulb_comps \<noteq> [] \<and> (\<exists>c\<in>set ex_bulb_comps. ctype c = ''bulb'' \<and> comp_id c = k)
            then Some offState else None)))"
proof -
  have h: "ex_bulb_nodes = [] \<or> ex_bulb_comps = [] \<or> (\<forall>n\<in>set ex_bulb_nodes. role n \<noteq> Some ''battery_minus'')"
    by (simp add: ex_bulb_nodes_def)
  from C2_incomplete_circuit[OF h] h show ?thesis by blast
qed

lemma translateCircuit_Built:
  assumes "translateCircuit K nodes connections components = Some (Inr (Built t))"
  shows "nodes \<noteq> []" and "components \<noteq> []"
    and "t_result t = (initBulbStates components emptyResult)\<lparr>batteryIndices := batteryIndices (t_result t)\<rparr>"
    and "buildCircuit K nodes (t_nodeToNet t) (t_netNames t) components
          = Inr (t_ckt t, t_netToIndex t, batteryIndices (t_result t))"
    and "\<exists>uf g. buildElectricalNets nodes connections = Some (uf, t_nodeToNet t)
          \<and> assignNetNames uf nodes = Some (t_netNames t, Some g) \<and> g \<noteq> []"
  using assms
  by (auto simp: translateCircuit_def split: if_splits option.splits sum.splits prod.splits)

lemma t_result_fields:
  assumes "translateCircuit K nodes connections components = Some (Inr (Built t))"
  shows "hasClosedLoop (t_result t) = False" and "bulbsOnCount (t_result t) = 0"
    and "nodeVoltages (t_result t) = []" and "totalCurrent (t_result t) = 0"
    and "map_of (bulbStates (t_result t)) k =
          (if \<exists>c\<in>set components. ctype c = ''bulb'' \<and> comp_id c = k then Some offState else None)"
proof -
  note e = translateCircuit_Built(3)[OF assms]
  show "hasClosedLoop (t_result t) = False"
    by (subst e) (simp add: initBulbStates_fields emptyResult_def)
  show "bulbsOnCount (t_result t) = 0"
    by (subst e) (simp add: initBulbStates_fields emptyResult_def)
  show "nodeVoltages (t_result t) = []"
    by (subst e) (simp add: initBulbStates_fields emptyResult_def)
  show "totalCurrent (t_result t) = 0"
    by (subst e) (simp add: initBulbStates_fields emptyResult_def)
  show "map_of (bulbStates (t_result t)) k =
          (if \<exists>c\<in>set components. ctype c = ''bulb'' \<and> comp_id c = k then Some offState else None)"
    by (subst e) (simp add: initBulbStates_bulbStates emptyResult_def)
qed

lemma getAllBatteryIndices_upt:
  "getAllBatteryIndices components
     = [1..<Suc (length (filter (\<lambda>c. ctype c = ''battery'') components))]"
  by (simp add: getAllBatteryIndices_def map_Suc_upt)

text \<open>
  Claim C7 (amended). When the circuit has been built and \<open>dc()\<close> throws or returns
  \<open>undefined\<close>, \<open>simulateCircuit\<close> returns a result whose \<open>batteryIndices\<close> are the
  positions \<open>1, \<dots>, n\<close> of all \<open>n\<close> batteries and whose other fields are the zeroed
  defaults (every bulb id at the initial off state). An exception thrown by a cktsim call
  during translation, which runs before the \<open>try\<close> block, is not caught: it reaches the
  caller.
\<close>

theorem C7_solver_failure:
  "(translateCircuit K nodes connections components = Some (Inr (Built t))
      \<and> (ckt_dc K (t_ckt t) = Inl e \<or> ckt_dc K (t_ckt t) = Inr None)
    \<longrightarrow> (\<exists>r. simulateCircuit K nodes connections components = Some (Inr r)
          \<and> batteryIndices r = [1..<Suc (length (filter (\<lambda>c. ctype c = ''battery'') components))]
          \<and> \<not> hasClosedLoop r \<and> bulbsOnCount r = 0 \<and> totalCurrent r = 0
          \<and> nodeVoltages r = []
          \<and> (\<forall>k. map_of (bulbStates r) k =
                (if \<exists>c\<in>set components. ctype c = ''bulb'' \<and> comp_id c = k
                 then Some offState else None))))
   \<and> (translateCircuit K nodes connections components = Some (Inl e)
    \<longrightarrow> simulateCircuit K nodes connections components = Some (Inl e))"
proof (intro conjI impI)
  assume a: "translateCircuit K nodes connections components = Some (Inr (Built t))
      \<and> (ckt_dc K (t_ckt t) = Inl e \<or> ckt_dc K (t_ckt t) = Inr None)"
  then have b: "translateCircuit K nodes connections components = Some (Inr (Built t))" by simp
  let ?r = "(t_result t)\<lparr>batteryIndices := getAllBatteryIndices components\<rparr>"
  have an: "analyseCircuit K nodes components t = ?r"
    using a by (auto simp: analyseCircuit_def)
  have s: "simulateCircuit K nodes connections components = Some (Inr ?r)"
    using b an by (simp add: simulateCircuit_def)
  show "\<exists>r. simulateCircuit K nodes connections components = Some (Inr r)
          \<and> batteryIndices r = [1..<Suc (length (filter (\<lambda>c. ctype c = ''battery'') components))]
          \<and> \<not> hasClosedLoop r \<and> bulbsOnCount r = 0 \<and> totalCurrent r = 0
          \<and> nodeVoltages r = []
          \<and> (\<forall>k. map_of (bulbStates r) k =
                (if \<exists>c\<in>set components. ctype c = ''bulb'' \<and> comp_id c = k
                 then Some offState else None))"
    using s t_result_fields[OF b] by (simp add: getAllBatteryIndices_upt)
next
  assume "translateCircuit K nodes connections components = Some (Inl e)"
  then show "simulateCircuit K nodes connections components = Some (Inl e)"
    by (simp add: simulateCircuit_def)
qed

definition ex_loop_nodes :: "Node list" where
  "ex_loop_nodes = [\<lparr>node_id = ''1'', componentId = ''b1'', role = Some ''battery_plus''\<rparr>,
                    \<lparr>node_id = ''2'', componentId = ''b1'', role = Some ''battery_minus''\<rparr>,
                    \<lparr>node_id = ''3'', componentId = ''L1'', role = Some ''bulb''\<rparr>,
                    \<lparr>node_id = ''4'', componentId = ''L1'', role = Some ''bulb''\<rparr>]"

definition ex_loop_conns :: "Connection list" where
  "ex_loop_conns = [\<lparr>fromNodeId = ''1'', toNodeId = ''3''\<rparr>, \<lparr>fromNodeId = ''4'', toNodeId = ''2''\<rparr>]"

definition ex_loop_comps :: "Component list" where
  "ex_loop_comps = [\<lparr>comp_id = ''b1'', ctype = ''battery'', resistance = None\<rparr>,
                    \<lparr>comp_id = ''L1'', ctype = ''bulb'', resistance = None\<rparr>]"

definition ex_throwing_ckt :: "Netlist cktsim" where
  "ex_throwing_ckt = (recorder ex_failing_solver)\<lparr>ckt_r := (\<lambda>c n1 n2 val name. Inl Exception)\<rparr>"

definition ex_loop_translation :: "Netlist Translation" where
  "ex_loop_translation =
     (case translateCircuit (recorder ex_failing_solver) ex_loop_nodes ex_loop_conns ex_loop_comps of
        Some (Inr (Built t)) \<Rightarrow> t)"


theorem C7_counterexample:
  "simulateCircuit ex_throwing_ckt ex_loop_nodes ex_loop_conns ex_loop_comps = Some (Inl Exception)"
  by code_simp

lemma ex_loop_translated:
  "translateCircuit (recorder ex_failing_solver) ex_loop_nodes ex_loop_conns ex_loop_comps
     = Some (Inr (Built ex_loop_translation))"
  by code_simp


theorem C7_witness:
  "(translateCircuit (recorder ex_failing_solver) ex_loop_nodes ex_loop_conns ex_loop_comps
        = Some (Inr (Built ex_loop_translation))
      \<and> (ckt_dc (recorder ex_failing_solver) (t_ckt ex_loop_translation) = Inl Exception
          \<or> ckt_dc (recorder ex_failing_solver) (t_ckt ex_loop_translation) = Inr None))
   \<and> (\<exists>r. simulateCircuit (recorder ex_failing_solver) ex_loop_nodes ex_loop_conns ex_loop_comps = Some (Inr r)
          \<and> batteryIndices r = [1..<Suc (length (filter (\<lambda>c. ctype c = ''battery'') ex_loop_comps))]
          \<and> \<not> hasClosedLoop r \<and> bulbsOnCount r = 0 \<and> totalCurrent r = 0
          \<and> nodeVoltages r = []
          \<and> (\<forall>k. map_of (bulbStates r) k =
                (if \<exists>c\<in>set ex_loop_comps. ctype c = ''bulb'' \<and> comp_id c = k
                 then Some offState else None)))
   \<and> translateCircuit ex_throwing_ckt ex_loop_nodes ex_loop_conns ex_loop_comps = Some (Inl Exception)
   \<and> simulateCircuit ex_throwing_ckt ex_loop_nodes ex_loop_conns ex_loop_comps = Some (Inl Exception)"
proof -
  have h1: "translateCircuit (recorder ex_failing_solver) ex_loop_nodes ex_loop_conns ex_loop_comps
        = Some (Inr (Built ex_loop_translation))
      \<and> (ckt_dc (recorder ex_failing_solver) (t_ckt ex_loop_translation) = Inl Exception
          \<or> ckt_dc (recorder ex_failing_solver) (t_ckt ex_loop_translation) = Inr None)"
    using ex_loop_translated by (simp add: recorder_def ex_failing_solver_def)
  have h2: "translateCircuit ex_throwing_ckt ex_loop_nodes ex_loop_conns ex_loop_comps = Some (Inl Exception)"
    by code_simp
  note c1 = C7_solver_failure[of "recorder ex_failing_solver" ex_loop_nodes ex_loop_conns
      ex_loop_comps ex_loop_translation Exception, THEN conjunct1, rule_format, OF h1]
  note c2 = C7_solver_failure[of ex_throwing_ckt ex_loop_nodes ex_loop_conns
      ex_loop_comps ex_loop_translation Exception, THEN conjunct2, rule_format, OF h2]
  from h1 h2 c1 c2 show ?thesis by blast
qed

lemma bulbs_loop_fields:
  "totalCurrent (bulbs_loop nodes n2n names dcr bs r) = totalCurrent r"
  "nodeVoltages (bulbs_loop nodes n2n names dcr bs r) = nodeVoltages r"
  "batteryIndices (bulbs_loop nodes n2n names dcr bs r) = batteryIndices r"
  by (induction bs arbitrary: r; simp add: Let_def)+


lemma bulbs_loop_count_mono:
  "bulbsOnCount r \<le> bulbsOnCount (bulbs_loop nodes n2n names dcr bs r)"
proof (induction bs arbitrary: r)
  case Nil
  show ?case by simp
next
  case (Cons b bs)
  have step: "bulbsOnCount r \<le> bulbsOnCount r' \<Longrightarrow>
      bulbsOnCount r \<le> bulbsOnCount (bulbs_loop nodes n2n names dcr bs r')" for r'
    using Cons.IH[of r'] by simp
  show ?case by (simp add: Let_def step)
qed

lemma bulbs_loop_closed:
  "hasClosedLoop (bulbs_loop nodes n2n names dcr bs r)
     = (hasClosedLoop r \<or> bulbsOnCount r < bulbsOnCount (bulbs_loop nodes n2n names dcr bs r))"
proof (induction bs arbitrary: r)
  case Nil
  show ?case by simp
next
  case (Cons b bs)
  have m: "bulbsOnCount r' = Suc (bulbsOnCount r) \<Longrightarrow>
      bulbsOnCount r < bulbsOnCount (bulbs_loop nodes n2n names dcr bs r')" for r'
    using bulbs_loop_count_mono[of r' nodes n2n names dcr bs] by simp
  show ?case by (simp add: Let_def Cons.IH m)
qed

lemma batteryCurrent_last:
  "batteryCurrent dcr bs t0 =
     (if filter (\<lambda>b. map_of dcr (''I('' @ comp_id b @ '')'') \<noteq> None) bs = [] then t0
      else \<bar>the (map_of dcr (''I('' @ comp_id (last (filter
              (\<lambda>b. map_of dcr (''I('' @ comp_id b @ '')'') \<noteq> None) bs)) @ '')''))\<bar>)"
  unfolding batteryCurrent_def
  by (induction bs arbitrary: t0) (auto split: option.splits)

lemma simulate_solved:
  assumes "translateCircuit K nodes connections components = Some (Inr (Built t))"
    and "ckt_dc K (t_ckt t) = Inr (Some dcr)"
  shows "simulateCircuit K nodes connections components
     = Some (Inr (extractResults nodes (t_nodeToNet t) (t_netNames t) components dcr (t_result t)))"
  using assms by (simp add: simulateCircuit_def analyseCircuit_def)

lemma extractResults_totalCurrent:
  "totalCurrent (extractResults nodes n2n names components dcr r)
     = batteryCurrent dcr (filter (\<lambda>c. ctype c = ''battery'') components) (totalCurrent r)"
  by (simp add: extractResults_def Let_def bulbs_loop_fields)



definition spec_firstBatteryCurrent :: "(string \<times> real) list \<Rightarrow> Component list \<Rightarrow> real" where
  "spec_firstBatteryCurrent dcResult components =
     (case filter (\<lambda>b. map_of dcResult (''I('' @ comp_id b @ '')'') \<noteq> None)
             (filter (\<lambda>c. ctype c = ''battery'') components) of
        [] \<Rightarrow> 0
      | b # _ \<Rightarrow> \<bar>the (map_of dcResult (''I('' @ comp_id b @ '')''))\<bar>)"

definition ex_nodes2 :: "Node list" where
  "ex_nodes2 = [\<lparr>node_id = ''1'', componentId = ''b1'', role = Some ''battery_plus''\<rparr>,
               \<lparr>node_id = ''2'', componentId = ''b1'', role = Some ''battery_minus''\<rparr>,
               \<lparr>node_id = ''3'', componentId = ''b2'', role = Some ''battery_plus''\<rparr>,
               \<lparr>node_id = ''4'', componentId = ''b2'', role = Some ''battery_minus''\<rparr>]"

definition ex_comps2 :: "Component list" where
  "ex_comps2 = [\<lparr>comp_id = ''b1'', ctype = ''battery'', resistance = None\<rparr>,
               \<lparr>comp_id = ''b2'', ctype = ''battery'', resistance = None\<rparr>]"

definition ex_dc2 :: "(string \<times> real) list" where
  "ex_dc2 = [(''I(b1)'', 1), (''I(b2)'', - 2)]"

definition ex_solver2 :: "Netlist \<Rightarrow> exn + (string \<times> real) list option" where
  "ex_solver2 = (\<lambda>c. Inr (Some ex_dc2))"

definition ex_translation2 :: "Netlist Translation" where
  "ex_translation2 =
     (case translateCircuit (recorder ex_solver2) ex_nodes2 [] ex_comps2 of
        Some (Inr (Built t)) \<Rightarrow> t)"

lemma ex_translated2:
  "translateCircuit (recorder ex_solver2) ex_nodes2 [] ex_comps2 = Some (Inr (Built ex_translation2))"
  by code_simp

text \<open>
  Claim C1 (amended). On solver success \<open>totalCurrent\<close> is the absolute value of the
  branch current of the last battery, in order of appearance among the battery components,
  whose branch current \<open>I(id)\<close> is defined in the solver's result, and 0 when no battery
  has one: the loop over the batteries overwrites \<open>totalCurrent\<close> at every battery with a
  defined current.
\<close>

theorem C1_totalCurrent_last:
  assumes "translateCircuit K nodes connections components = Some (Inr (Built t))"
    and "ckt_dc K (t_ckt t) = Inr (Some dcResult)"
  shows "\<exists>r. simulateCircuit K nodes connections components = Some (Inr r)
     \<and> totalCurrent r =
         (let solved = filter (\<lambda>b. map_of dcResult (''I('' @ comp_id b @ '')'') \<noteq> None)
                         (filter (\<lambda>c. ctype c = ''battery'') components)
          in if solved = [] then 0
             else \<bar>the (map_of dcResult (''I('' @ comp_id (last solved) @ '')''))\<bar>)"
  using simulate_solved[OF assms] t_result_fields(4)[OF assms(1)]
  by (simp add: extractResults_totalCurrent batteryCurrent_last Let_def)

theorem C1_counterexample:
  "map_option (map_sum id totalCurrent) (simulateCircuit (recorder ex_solver2) ex_nodes2 [] ex_comps2)
     = Some (Inr 2)
   \<and> spec_firstBatteryCurrent ex_dc2 ex_comps2 = 1"
  by code_simp

theorem C1_witness:
  "translateCircuit (recorder ex_solver2) ex_nodes2 [] ex_comps2 = Some (Inr (Built ex_translation2))
   \<and> ckt_dc (recorder ex_solver2) (t_ckt ex_translation2) = Inr (Some ex_dc2)
   \<and> (\<exists>r. simulateCircuit (recorder ex_solver2) ex_nodes2 [] ex_comps2 = Some (Inr r)
     \<and> totalCurrent r =
         (let solved = filter (\<lambda>b. map_of ex_dc2 (''I('' @ comp_id b @ '')'') \<noteq> None)
                         (filter (\<lambda>c. ctype c = ''battery'') ex_comps2)
          in if solved = [] then 0
             else \<bar>the (map_of ex_dc2 (''I('' @ comp_id (last solved) @ '')''))\<bar>))"
proof -
  have h2: "ckt_dc (recorder ex_solver2) (t_ckt ex_translation2) = Inr (Some ex_dc2)"
    by (simp add: recorder_def ex_solver2_def)
  from C1_totalCurrent_last[OF ex_translated2 h2] ex_translated2 h2 show ?thesis by blast
qed

lemma extractResults_batteryIndices:
  "batteryIndices (extractResults nodes n2n names components dcr r) =
     (if totalCurrent (extractResults nodes n2n names components dcr r) > 1 / 10
         \<and> bulbsOnCount (extractResults nodes n2n names components dcr r) = 0
         \<and> filter (\<lambda>c. ctype c = ''battery'') components \<noteq> []
      then getAllBatteryIndices components else batteryIndices r)"
  by (simp add: extractResults_def Let_def bulbs_loop_fields SHORT_CIRCUIT_CURRENT_def)

lemma extractResults_hasClosedLoop:
  assumes "\<not> hasClosedLoop r" and "bulbsOnCount r = 0"
  shows "hasClosedLoop (extractResults nodes n2n names components dcr r) =
     (bulbsOnCount (extractResults nodes n2n names components dcr r) > 0
      \<or> totalCurrent (extractResults nodes n2n names components dcr r) > 1 / 1000)"
  using assms
  by (simp add: extractResults_def Let_def bulbs_loop_fields bulbs_loop_closed CURRENT_THRESHOLD_def)

text \<open>
  Claim C8. On solver success, when the final \<open>totalCurrent\<close> exceeds 100 mA, no bulb is
  on and there is at least one battery, \<open>batteryIndices\<close> of the returned result is the
  list \<open>1, \<dots>, n\<close> of all battery positions, whatever indices translation had recorded;
  otherwise it is the list recorded by translation. The test reads the bulb count after
  the bulb states are computed and comes after the closed-loop check, so the flag
  \<open>hasClosedLoop\<close> of the result already accounts for the current.
\<close>

theorem C8_no_load_short:
  assumes "translateCircuit K nodes connections components = Some (Inr (Built t))"
    and "ckt_dc K (t_ckt t) = Inr (Some dcResult)"
  shows "\<exists>r. simulateCircuit K nodes connections components = Some (Inr r)
     \<and> (totalCurrent r > 1 / 10 \<and> bulbsOnCount r = 0
          \<and> filter (\<lambda>c. ctype c = ''battery'') components \<noteq> []
        \<longrightarrow> batteryIndices r = [1..<Suc (length (filter (\<lambda>c. ctype c = ''battery'') components))])
     \<and> (\<not> (totalCurrent r > 1 / 10 \<and> bulbsOnCount r = 0
          \<and> filter (\<lambda>c. ctype c = ''battery'') components \<noteq> [])
        \<longrightarrow> batteryIndices r = batteryIndices (t_result t))
     \<and> hasClosedLoop r = (bulbsOnCount r > 0 \<or> totalCurrent r > 1 / 1000)"
proof -
  let ?r = "extractResults nodes (t_nodeToNet t) (t_netNames t) components dcResult (t_result t)"
  have s: "simulateCircuit K nodes connections components = Some (Inr ?r)"
    by (rule simulate_solved[OF assms])
  have c: "hasClosedLoop ?r = (bulbsOnCount ?r > 0 \<or> totalCurrent ?r > 1 / 1000)"
    using t_result_fields(1,2)[OF assms(1)] by (intro extractResults_hasClosedLoop) simp_all
  show ?thesis
    using s c by (simp add: extractResults_batteryIndices getAllBatteryIndices_upt)
qed

theorem C8_witness:
  "translateCircuit (recorder ex_solver2) ex_nodes2 [] ex_comps2 = Some (Inr (Built ex_translation2))
   \<and> ckt_dc (recorder ex_solver2) (t_ckt ex_translation2) = Inr (Some ex_dc2)
   \<and> (\<exists>r. simulateCircuit (recorder ex_solver2) ex_nodes2 [] ex_comps2 = Some (Inr r)
        \<and> totalCurrent r > 1 / 10 \<and> bulbsOnCount r = 0
        \<and> filter (\<lambda>c. ctype c = ''battery'') ex_comps2 \<noteq> []
        \<and> batteryIndices r = [1, 2]
        \<and> hasClosedLoop r)"
proof -
  have h2: "ckt_dc (recorder ex_solver2) (t_ckt ex_translation2) = Inr (Some ex_dc2)"
    by (simp add: recorder_def ex_solver2_def)
  from C8_no_load_short[OF ex_translated2 h2] obtain r where
    s: "simulateCircuit (recorder ex_solver2) ex_nodes2 [] ex_comps2 = Some (Inr r)"
    and i: "totalCurrent r > 1 / 10 \<and> bulbsOnCount r = 0
          \<and> filter (\<lambda>c. ctype c = ''battery'') ex_comps2 \<noteq> []
        \<longrightarrow> batteryIndices r = [1..<Suc (length (filter (\<lambda>c. ctype c = ''battery'') ex_comps2))]"
    and c: "hasClosedLoop r = (bulbsOnCount r > 0 \<or> totalCurrent r > 1 / 1000)"
    by blast
  have "map_option (map_sum id (\<lambda>r. (totalCurrent r, bulbsOnCount r)))
          (simulateCircuit (recorder ex_solver2) ex_nodes2 [] ex_comps2) = Some (Inr (2, 0))"
    by code_simp
  then have v: "totalCurrent r = 2" "bulbsOnCount r = 0" using s by simp_all
  have b: "filter (\<lambda>c. ctype c = ''battery'') ex_comps2 \<noteq> []"
    by (simp add: ex_comps2_def)
  have n: "[1..<Suc (length (filter (\<lambda>c. ctype c = ''battery'') ex_comps2))] = [1, 2]"
    by (simp add: ex_comps2_def upt_rec)
  have "batteryIndices r = [1, 2]" using i v b n by simp
  moreover have "hasClosedLoop r" using c v by simp
  ultimately show ?thesis using ex_translated2 h2 s v b by auto
qed

















definition ex_solver_empty :: "Netlist \<Rightarrow> exn + (string \<times> real) list option" where
  "ex_solver_empty = (\<lambda>c. Inr (Some []))"




definition potDevices :: "Node list \<Rightarrow> (string \<Rightarrow> int option) \<Rightarrow> Component \<Rightarrow> device list" where
  "potDevices nodes nodeIndex pot =
     (let potNodes = filter (\<lambda>n. componentId n = comp_id pot) nodes
      in if length potNodes = 2
         then [Resistor (nodeIndex (node_id (potNodes ! 0))) (nodeIndex (node_id (potNodes ! 1)))
                 (potResistance pot) (comp_id pot)]
         else [])"

lemma recorder_calls:
  "ckt_r (recorder solver) c a b v n = Inr (c\<lparr>nl_devices := nl_devices c @ [Resistor a b v n]\<rparr>)"
  "ckt_v (recorder solver) c a b v n = Inr (c\<lparr>nl_devices := nl_devices c @ [VSource a b v n]\<rparr>)"
  "ckt_node (recorder solver) c name = Inr (int (length (nl_nodes c)), c\<lparr>nl_nodes := nl_nodes c @ [name]\<rparr>)"
  "ckt_dc (recorder solver) c = solver c"
  by (simp_all add: recorder_def)

lemma addPots_recorder:
  "addPots (recorder solver) nodes f ps c
     = Inr (c\<lparr>nl_devices := nl_devices c @ concat (map (potDevices nodes f) ps)\<rparr>)"
proof (induction ps arbitrary: c)
  case Nil
  show ?case by simp
next
  case (Cons p ps)
  show ?case
    by (simp add: Let_def recorder_calls Cons.IH potDevices_def)
qed

text \<open>
  Claim C9. With the recording circuit, whenever translation completes, a potentiometer
  component with exactly two nodes whose resistance is absent or 0 has put the resistor
  \<open>r(idx1, idx2, 500, id)\<close> into the netlist handed to the solver, between the node
  handles of the nets of its two nodes.
\<close>

theorem C9_potentiometer_default_resistance:
  assumes "translateCircuit (recorder solver) nodes connections components = Some (Inr (Built t))"
    and "pot \<in> set components" and "ctype pot = ''potentiometer''"
    and "resistance pot = None \<or> resistance pot = Some 0"
    and "filter (\<lambda>n. componentId n = comp_id pot) nodes = [n1, n2]"
  shows "Resistor (getNodeIndex (t_nodeToNet t) (t_netNames t) (t_netToIndex t) (node_id n1))
           (getNodeIndex (t_nodeToNet t) (t_netNames t) (t_netToIndex t) (node_id n2))
           500 (comp_id pot)
         \<in> set (nl_devices (t_ckt t))"
proof -
  let ?f = "getNodeIndex (t_nodeToNet t) (t_netNames t) (t_netToIndex t)"
  let ?pots = "filter (\<lambda>c. ctype c = ''potentiometer'') components"
  from translateCircuit_Built(4)[OF assms(1)] obtain ckt3 where
    p: "addPots (recorder solver) nodes ?f ?pots ckt3 = Inr (t_ckt t)"
    by (auto simp: buildCircuit_def split: sum.splits prod.splits)
  have e: "t_ckt t = ckt3\<lparr>nl_devices := nl_devices ckt3 @ concat (map (potDevices nodes ?f) ?pots)\<rparr>"
    using p unfolding addPots_recorder by simp
  have d: "nl_devices (t_ckt t) = nl_devices ckt3 @ concat (map (potDevices nodes ?f) ?pots)"
    by (subst e) simp
  have r: "potResistance pot = 500" using assms(4) by (auto simp: potResistance_def)
  have "potDevices nodes ?f pot = [Resistor (?f (node_id n1)) (?f (node_id n2)) 500 (comp_id pot)]"
    using assms(5) r by (simp add: potDevices_def)
  moreover have "pot \<in> set ?pots" using assms(2,3) by simp
  ultimately show ?thesis unfolding d by force
qed


definition ex_pot_nodes :: "Node list" where
  "ex_pot_nodes = [\<lparr>node_id = ''1'', componentId = ''b1'', role = Some ''battery_plus''\<rparr>,
                   \<lparr>node_id = ''2'', componentId = ''b1'', role = Some ''battery_minus''\<rparr>,
                   \<lparr>node_id = ''5'', componentId = ''P1'', role = Some ''potentiometer''\<rparr>,
                   \<lparr>node_id = ''6'', componentId = ''P1'', role = Some ''potentiometer''\<rparr>]"

definition ex_pot_conns :: "Connection list" where
  "ex_pot_conns = [\<lparr>fromNodeId = ''1'', toNodeId = ''5''\<rparr>, \<lparr>fromNodeId = ''6'', toNodeId = ''2''\<rparr>]"

definition ex_pot :: Component where
  "ex_pot = \<lparr>comp_id = ''P1'', ctype = ''potentiometer'', resistance = Some 0\<rparr>"

definition ex_pot_comps :: "Component list" where
  "ex_pot_comps = [\<lparr>comp_id = ''b1'', ctype = ''battery'', resistance = None\<rparr>, ex_pot]"

definition ex_node5 :: Node where
  "ex_node5 = \<lparr>node_id = ''5'', componentId = ''P1'', role = Some ''potentiometer''\<rparr>"

definition ex_node6 :: Node where
  "ex_node6 = \<lparr>node_id = ''6'', componentId = ''P1'', role = Some ''potentiometer''\<rparr>"

definition ex_pot_translation :: "Netlist Translation" where
  "ex_pot_translation =
     (case translateCircuit (recorder ex_solver_empty) ex_pot_nodes ex_pot_conns ex_pot_comps of
        Some (Inr (Built t)) \<Rightarrow> t)"

theorem C9_witness:
  "translateCircuit (recorder ex_solver_empty) ex_pot_nodes ex_pot_conns ex_pot_comps
     = Some (Inr (Built ex_pot_translation))
   \<and> ex_pot \<in> set ex_pot_comps \<and> ctype ex_pot = ''potentiometer''
   \<and> (resistance ex_pot = None \<or> resistance ex_pot = Some 0)
   \<and> filter (\<lambda>n. componentId n = comp_id ex_pot) ex_pot_nodes = [ex_node5, ex_node6]
   \<and> Resistor (Some 0) (Some (- 1)) 500 ''P1'' \<in> set (nl_devices (t_ckt ex_pot_translation))"
proof -
  have h1: "translateCircuit (recorder ex_solver_empty) ex_pot_nodes ex_pot_conns ex_pot_comps
     = Some (Inr (Built ex_pot_translation))" by code_simp
  have h2: "ex_pot \<in> set ex_pot_comps" by (simp add: ex_pot_comps_def)
  have h3: "ctype ex_pot = ''potentiometer''" by (simp add: ex_pot_def)
  have h4: "resistance ex_pot = None \<or> resistance ex_pot = Some 0" by (simp add: ex_pot_def)
  have h5: "filter (\<lambda>n. componentId n = comp_id ex_pot) ex_pot_nodes = [ex_node5, ex_node6]"
    by (simp add: ex_pot_def ex_pot_nodes_def ex_node5_def ex_node6_def)
  have i1: "getNodeIndex (t_nodeToNet ex_pot_translation) (t_netNames ex_pot_translation)
      (t_netToIndex ex_pot_translation) (node_id ex_node5) = Some 0" by code_simp
  have i2: "getNodeIndex (t_nodeToNet ex_pot_translation) (t_netNames ex_pot_translation)
      (t_netToIndex ex_pot_translation) (node_id ex_node6) = Some (- 1)" by code_simp
  have "comp_id ex_pot = ''P1''" by (simp add: ex_pot_def)
  then show ?thesis
    using C9_potentiometer_default_resistance[OF h1 h2 h3 h4 h5] h1 h2 h3 h4 h5
    unfolding i1 i2 by simp
qed

end
